theory Spec2Isabelle
  imports Complex_Main
begin

section \<open>Tensors\<close>

text \<open>
  A torch tensor or numpy array is modelled by its shape and its elements in row-major
  (contiguous) order. Elements are taken from a commutative ring: the arithmetic of the
  model is exact, and floating-point rounding is outside of it. On this representation
  \<open>contiguous()\<close> is the identity, and \<open>reshape\<close>, as well as \<open>view\<close> on a contiguous
  tensor, only replace the shape. A \<open>view\<close> applied to a permuted tensor that was not made
  contiguous can raise; the one occurrence, in \<open>cheb_conv\<close>, is modelled there.

  The primitives below are those of the tensor runtime, written from their documented
  meaning. The runtime raises on operands of the wrong rank or size; the functions here
  are total, and the results of this theory are stated for well-shaped operands, on
  which no primitive raises.
\<close>

datatype 'a tensor = Tensor (shape: "nat list") (data: "'a list")

definition wf_tensor :: "'a tensor \<Rightarrow> bool" where
  "wf_tensor t \<longleftrightarrow> length (data t) = prod_list (shape t)"

fun unravel :: "nat list \<Rightarrow> nat \<Rightarrow> nat list" where
  "unravel [] i = []"
| "unravel (d # ds) i = (i div prod_list ds) # unravel ds (i mod prod_list ds)"

fun ravel :: "nat list \<Rightarrow> nat list \<Rightarrow> nat" where
  "ravel (d # ds) (m # ms) = m * prod_list ds + ravel ds ms"
| "ravel _ _ = 0"

fun index_of :: "'a list \<Rightarrow> 'a \<Rightarrow> nat" where
  "index_of [] y = 0"
| "index_of (x # xs) y = (if x = y then 0 else Suc (index_of xs y))"

definition reshape :: "nat list \<Rightarrow> 'a tensor \<Rightarrow> 'a tensor" where
  "reshape s t = Tensor s (data t)"

text \<open>\<open>t.permute(p)\<close>: axis \<open>a\<close> of the result is axis \<open>p ! a\<close> of \<open>t\<close>.\<close>

definition permute :: "nat list \<Rightarrow> 'a tensor \<Rightarrow> 'a tensor" where
  "permute p t =
     (let s = shape t; ns = map (\<lambda>a. s ! a) p in
      Tensor ns (map (\<lambda>i. let m = unravel ns i;
                               old = map (\<lambda>b. m ! index_of p b) [0..<length s]
                           in data t ! ravel s old)
                     [0..<prod_list ns]))"

definition unsqueeze :: "nat \<Rightarrow> 'a tensor \<Rightarrow> 'a tensor" where
  "unsqueeze d t = Tensor (take d (shape t) @ [1] @ drop d (shape t)) (data t)"

text \<open>\<open>t.flatten(a, b)\<close> merges the axes \<open>a..b\<close> into one.\<close>

definition flatten :: "nat \<Rightarrow> nat \<Rightarrow> 'a tensor \<Rightarrow> 'a tensor" where
  "flatten a b t =
     Tensor (take a (shape t) @ [prod_list (take (Suc b - a) (drop a (shape t)))]
               @ drop (Suc b) (shape t))
            (data t)"

text \<open>\<open>torch.cat((a, b), 0)\<close>, \<open>t[k]\<close> and \<open>t[k] = m\<close> along the first axis.\<close>

definition cat0 :: "'a tensor \<Rightarrow> 'a tensor \<Rightarrow> 'a tensor" where
  "cat0 a b = Tensor ((hd (shape a) + hd (shape b)) # tl (shape a)) (data a @ data b)"

definition select0 :: "'a tensor \<Rightarrow> nat \<Rightarrow> 'a tensor" where
  "select0 t k =
     (let n = prod_list (tl (shape t)) in
      Tensor (tl (shape t)) (take n (drop (k * n) (data t))))"

definition set0 :: "nat \<Rightarrow> 'a tensor \<Rightarrow> 'a tensor \<Rightarrow> 'a tensor" where
  "set0 k m t =
     (let n = prod_list (tl (shape t)) in
      Tensor (shape t) (take (k * n) (data t) @ data m @ drop (Suc k * n) (data t)))"

definition zeros :: "nat list \<Rightarrow> 'a::comm_ring_1 tensor" where
  "zeros s = Tensor s (replicate (prod_list s) 0)"

definition eye :: "nat \<Rightarrow> 'a::comm_ring_1 tensor" where
  "eye n = Tensor [n, n]
     (concat (map (\<lambda>i. map (\<lambda>j. if i = j then 1 else 0) [0..<n]) [0..<n]))"

text \<open>Element-wise operations on tensors of one shape, and multiplication by a scalar.\<close>

definition scale :: "'a::comm_ring_1 \<Rightarrow> 'a tensor \<Rightarrow> 'a tensor" where
  "scale c t = Tensor (shape t) (map (\<lambda>x. c * x) (data t))"

definition sub :: "'a::comm_ring_1 tensor \<Rightarrow> 'a tensor \<Rightarrow> 'a tensor" where
  "sub a b = Tensor (shape a) (map2 (\<lambda>x y. x - y) (data a) (data b))"

definition mul :: "'a::comm_ring_1 tensor \<Rightarrow> 'a tensor \<Rightarrow> 'a tensor" where
  "mul a b = Tensor (shape a) (map2 (\<lambda>x y. x * y) (data a) (data b))"

text \<open>
  \<open>torch.mm(a, b)\<close> for \<open>a\<close> of shape \<open>[n, m]\<close> and \<open>b\<close> of shape \<open>[m, p]\<close>.
  \<open>torch.sparse.mm\<close> computes the same product from a sparse left operand; the sparse
  Laplacian is represented by the dense matrix it denotes.
\<close>

definition mm :: "'a::comm_ring_1 tensor \<Rightarrow> 'a tensor \<Rightarrow> 'a tensor" where
  "mm a b =
     (let n = shape a ! 0; m = shape a ! 1; p = shape b ! 1 in
      Tensor [n, p]
        (concat (map (\<lambda>i. map (\<lambda>j. \<Sum>k\<leftarrow>[0..<m]. data a ! (i * m + k) * data b ! (k * p + j))
                               [0..<p])
                     [0..<n])))"

definition sparse_mm :: "'a::comm_ring_1 tensor \<Rightarrow> 'a tensor \<Rightarrow> 'a tensor" where
  "sparse_mm a b = mm a b"

text \<open>
  \<open>expand\<close>: an axis of size 1 is repeated to the requested size; \<open>-1\<close> (here \<open>None\<close>)
  keeps the axis.
\<close>

definition chunk :: "nat \<Rightarrow> 'a list \<Rightarrow> nat \<Rightarrow> 'a list" where
  "chunk n xs c = take n (drop (c * n) xs)"

definition expand_dim :: "nat \<Rightarrow> nat \<Rightarrow> 'a tensor \<Rightarrow> 'a tensor" where
  "expand_dim d k t =
     (let outer = prod_list (take d (shape t));
          inner = prod_list (drop (Suc d) (shape t)) in
      Tensor ((shape t)[d := k])
        (concat (map (\<lambda>c. concat (replicate k (chunk inner (data t) c))) [0..<outer])))"

fun expand_from :: "nat \<Rightarrow> nat option list \<Rightarrow> 'a tensor \<Rightarrow> 'a tensor" where
  "expand_from d [] t = t"
| "expand_from d (None # szs) t = expand_from (Suc d) szs t"
| "expand_from d (Some k # szs) t =
     expand_from (Suc d) szs (if shape t ! d = k then t else expand_dim d k t)"

definition expand :: "nat option list \<Rightarrow> 'a tensor \<Rightarrow> 'a tensor" where
  "expand sizes t = expand_from 0 sizes t"

text \<open>
  \<open>t.repeat_interleave(K, dim=d)\<close>: along axis \<open>d\<close>, entry \<open>j\<close> of the result is entry
  \<open>j div K\<close> of \<open>t\<close>.
\<close>

definition repeat_interleave :: "nat \<Rightarrow> nat \<Rightarrow> 'a tensor \<Rightarrow> 'a tensor" where
  "repeat_interleave K d t =
     (let outer = prod_list (take d (shape t));
          n = shape t ! d;
          inner = prod_list (drop (Suc d) (shape t)) in
      Tensor ((shape t)[d := n * K])
        (concat (map (\<lambda>c. concat (map (\<lambda>j. chunk inner (data t) (c * n + j div K)) [0..<n * K]))
                     [0..<outer])))"

text \<open>\<open>torch.sum(t, -1)\<close>.\<close>

definition sum_last :: "'a::comm_ring_1 tensor \<Rightarrow> 'a tensor" where
  "sum_last t =
     (let r = last (shape t) in
      Tensor (butlast (shape t))
        (map (\<lambda>c. sum_list (chunk r (data t) c)) [0..<prod_list (butlast (shape t))]))"

text \<open>
  \<open>torch.einsum('bfvxyz,kvw->bfkwxyz', inputs, laplacian)\<close> and
  \<open>torch.einsum('bfvxyz,fg->bgvxyz', inputs, weight)\<close>.
\<close>

definition einsum_bfvxyz_kvw :: "'a::comm_ring_1 tensor \<Rightarrow> 'a tensor \<Rightarrow> 'a tensor" where
  "einsum_bfvxyz_kvw inputs laplacian =
     (let si = shape inputs; sl = shape laplacian;
          B = si ! 0; F = si ! 1; V = si ! 2; X = si ! 3; Y = si ! 4; Z = si ! 5;
          K = sl ! 0; W = sl ! 2;
          ns = [B, F, K, W, X, Y, Z] in
      Tensor ns
        (map (\<lambda>i. case unravel ns i of
                     [b, f, k, w, x, y, z] \<Rightarrow>
                       (\<Sum>v\<leftarrow>[0..<V]. data inputs ! ravel si [b, f, v, x, y, z]
                                        * data laplacian ! ravel sl [k, v, w])
                   | _ \<Rightarrow> 0)
             [0..<prod_list ns]))"

definition einsum_bfvxyz_fg :: "'a::comm_ring_1 tensor \<Rightarrow> 'a tensor \<Rightarrow> 'a tensor" where
  "einsum_bfvxyz_fg inputs weight =
     (let si = shape inputs; sw = shape weight;
          B = si ! 0; F = si ! 1; V = si ! 2; X = si ! 3; Y = si ! 4; Z = si ! 5;
          G = sw ! 1;
          ns = [B, G, V, X, Y, Z] in
      Tensor ns
        (map (\<lambda>i. case unravel ns i of
                     [b, g, v, x, y, z] \<Rightarrow>
                       (\<Sum>f\<leftarrow>[0..<F]. data inputs ! ravel si [b, f, v, x, y, z]
                                        * data weight ! ravel sw [f, g])
                   | _ \<Rightarrow> 0)
             [0..<prod_list ns]))"

datatype py_error =
    ValueError | AssertionError | IndexError | LinAlgError | NotImplementedError
  | OverflowError | ZeroDivisionError | RuntimeError

section \<open>graphconv.py: the Chebyshev basis\<close>

text \<open>
  The loop \<open>for _ in range(2, K)\<close> of \<open>project_cheb_basis\<close>, on the state
  \<open>(inputs, x0, x1)\<close>, run for the given number of iterations.
\<close>

fun cheb_loop ::
  "nat \<Rightarrow> 'a::comm_ring_1 tensor \<Rightarrow> 'a tensor \<times> 'a tensor \<times> 'a tensor
     \<Rightarrow> 'a tensor \<times> 'a tensor \<times> 'a tensor" where
  "cheb_loop 0 laplacian st = st"
| "cheb_loop (Suc n) laplacian (inputs, x0, x1) =
     (let x2 = sub (scale 2 (sparse_mm laplacian x1)) x0;
          inputs = cat0 inputs (unsqueeze 0 x2)
      in cheb_loop n laplacian (inputs, x1, x2))"

definition project_cheb_basis :: "'a::comm_ring_1 tensor \<Rightarrow> 'a tensor \<Rightarrow> nat \<Rightarrow> 'a tensor" where
  "project_cheb_basis laplacian x0 K =
     (let inputs = unsqueeze 0 x0 in
      if K > 1 then
        let x1 = sparse_mm laplacian x0;
            inputs = cat0 inputs (unsqueeze 0 x1)
        in fst (cheb_loop (K - 2) laplacian (inputs, x0, x1))
      else inputs)"

fun cheb_loop_dense ::
  "nat \<Rightarrow> 'a::comm_ring_1 tensor \<Rightarrow> 'a tensor \<times> 'a tensor \<times> 'a tensor
     \<Rightarrow> 'a tensor \<times> 'a tensor \<times> 'a tensor" where
  "cheb_loop_dense 0 laplacian st = st"
| "cheb_loop_dense (Suc n) laplacian (inputs, x0, x1) =
     (let x2 = sub (scale 2 (mm laplacian x1)) x0;
          inputs = cat0 inputs (unsqueeze 0 x2)
      in cheb_loop_dense n laplacian (inputs, x1, x2))"

definition project_cheb_basis_dense ::
  "'a::comm_ring_1 tensor \<Rightarrow> 'a tensor \<Rightarrow> nat \<Rightarrow> 'a tensor" where
  "project_cheb_basis_dense laplacian x0 K =
     (let inputs = unsqueeze 0 x0 in
      if K > 1 then
        let x1 = mm laplacian x0;
            inputs = cat0 inputs (unsqueeze 0 x1)
        in fst (cheb_loop_dense (K - 2) laplacian (inputs, x0, x1))
      else inputs)"

text \<open>
  \<open>precompute_projection\<close>. The first assignment \<open>projector[0] = torch.eye(...)\<close> raises
  IndexError when \<open>K = 0\<close>; the loop body is \<open>projector[i] = 2 * mm(lap, projector[i-1])
  - projector[i-2]\<close>.
\<close>

definition projection_step :: "'a::comm_ring_1 tensor \<Rightarrow> nat \<Rightarrow> 'a tensor \<Rightarrow> 'a tensor" where
  "projection_step lap i projector =
     set0 i (sub (scale 2 (mm lap (select0 projector (i - 1)))) (select0 projector (i - 2)))
       projector"

definition precompute_projection ::
  "'a::comm_ring_1 tensor \<Rightarrow> nat \<Rightarrow> py_error + 'a tensor" where
  "precompute_projection lap K =
     (let V = shape lap ! 0;
          projector = zeros [K, V, V] in
      if K = 0 then Inl IndexError
      else
        let projector = set0 0 (eye V) projector in
        if K > 1 then
          let projector = set0 1 lap projector in
          Inr (fold (projection_step lap) [2..<K] projector)
        else Inr projector)"

text \<open>
  The projector as \<open>Conv.__init__\<close> registers it when \<open>precompute\<close> is set and \<open>einsum\<close>
  is not: \<open>projector.permute(0, 2, 1).contiguous().view(K * lap.shape[1], lap.shape[0])\<close>.
\<close>

definition flat_projector :: "'a tensor \<Rightarrow> nat \<Rightarrow> 'a tensor \<Rightarrow> 'a tensor" where
  "flat_projector lap K projector =
     reshape [K * (shape lap ! 1), shape lap ! 0] (permute [0, 2, 1] projector)"

text \<open>
  The projection on the precomputed path: \<open>Conv.__init__\<close> builds the flattened
  projector from the Laplacian, \<open>cheb_conv\<close> multiplies it with \<open>x0\<close> in one
  \<open>torch.mm\<close> and reshapes the product to \<open>K\<close> blocks of \<open>V\<close> rows.
\<close>

definition precomputed_basis ::
  "'a::comm_ring_1 tensor \<Rightarrow> 'a tensor \<Rightarrow> nat \<Rightarrow> py_error + 'a tensor" where
  "precomputed_basis lap x0 K =
     (case precompute_projection lap K of
        Inl e \<Rightarrow> Inl e
      | Inr projector \<Rightarrow>
          Inr (reshape [K, shape x0 ! 0, shape x0 ! 1]
                 (mm (flat_projector lap K projector) x0)))"

section \<open>Python numerics used by the sampling code\<close>

text \<open>\<open>int(x)\<close> on a float truncates toward zero.\<close>

definition py_int :: "real \<Rightarrow> int" where
  "py_int x = (if 0 \<le> x then \<lfloor>x\<rfloor> else \<lceil>x\<rceil>)"

text \<open>
  A Python float is an IEEE binary64 number: 53 significant bits, every result rounded to
  the nearest representable value, a tie to the one with the even significand. \<open>ld x\<close>
  is the binary exponent of \<open>x\<close>, \<open>ulp x\<close> the spacing of the floats around \<open>x\<close>
  (constant below \<open>2 ^ -1022\<close>, the subnormal range), \<open>fl x\<close> the float nearest to
  \<open>x\<close> as long as the exponent range is not exceeded, and \<open>dbl_max\<close> the largest
  finite float.
\<close>

definition ld :: "real \<Rightarrow> int" where
  "ld x = \<lfloor>log 2 \<bar>x\<bar>\<rfloor>"

definition ulp :: "real \<Rightarrow> real" where
  "ulp x = 2 powr real_of_int (max (ld x) (- 1022) - 52)"

definition round_half_even :: "real \<Rightarrow> int" where
  "round_half_even x =
     (let f = \<lfloor>x\<rfloor>; r = x - real_of_int f
      in if r < 1 / 2 then f else if 1 / 2 < r then f + 1 else if even f then f else f + 1)"

definition fl :: "real \<Rightarrow> real" where
  "fl x = (if x = 0 then 0 else real_of_int (round_half_even (x / ulp x)) * ulp x)"

definition dbl_max :: real where
  "dbl_max = (2 ^ 53 - 1) * 2 ^ 971"

text \<open>
  \<open>a / b\<close> on two ints is the correctly rounded quotient; it raises OverflowError when
  that is too large for a float.
\<close>

definition true_div :: "int \<Rightarrow> int \<Rightarrow> py_error + real" where
  "true_div a b =
     (if b = 0 then Inl ZeroDivisionError
      else let q = fl (real_of_int a / real_of_int b)
           in if dbl_max < \<bar>q\<bar> then Inl OverflowError else Inr q)"

section \<open>HealpixSampling.get_healpix_poolings: the patch-size schedule\<close>

text \<open>
  The pooling objects are built by constructors of \<open>pooling.py\<close>; only the arguments this
  file passes to them are recorded. The hemisphere index tables handed to the spherical
  poolings are computed from the HEALPix graph and do not enter the patch-size schedule;
  they are left out of the model.
\<close>

datatype pooling =
    IdentityPooling
  | MixedPooling (kernel_size_spa: int) (stride: int)
  | HealpixPooling
  | SpatialPooling "(int \<times> int) option"

text \<open>
  \<open>int(((patch_size - 2) / 2) * (patch_size%2) + patch_size / 2)\<close>: both divisions are
  Python's true division of ints, the product and the sum are float operations, and the
  truncation is applied once, to the sum. A sum beyond the largest float is infinite, and
  \<open>int\<close> raises OverflowError on it.
\<close>

definition shrink_patch :: "int \<Rightarrow> py_error + int" where
  "shrink_patch patch_size =
     (case true_div (patch_size - 2) 2 of
        Inl e \<Rightarrow> Inl e
      | Inr a \<Rightarrow>
          (case true_div patch_size 2 of
             Inl e \<Rightarrow> Inl e
           | Inr b \<Rightarrow>
               let s = fl (fl (a * real_of_int (patch_size mod 2)) + b)
               in if dbl_max < \<bar>s\<bar> then Inl OverflowError else Inr (py_int s)))"

text \<open>\<open>-(patch_size%2) + 2\<close> and \<open>(patch_size>1) + 1\<close>.\<close>

definition pool_stride :: "int \<Rightarrow> int" where
  "pool_stride patch_size = - (patch_size mod 2) + 2"

definition pool_kernel :: "int \<Rightarrow> int" where
  "pool_kernel patch_size = (if patch_size > 1 then 1 else 0) + 1"

record pool_state =
  patch_size :: int
  n_side :: int
  poolings :: "pooling list"
  patch_size_list :: "int list"

text \<open>One iteration of \<open>for depth_i in range(depth-1)\<close>, for each branch on \<open>pooling_name\<close>.\<close>

definition step_mixed :: "pool_state \<Rightarrow> py_error + pool_state" where
  "step_mixed s =
     (let s = s\<lparr>patch_size_list := patch_size_list s @ [patch_size s]\<rparr> in
      if patch_size s = 1 \<and> n_side s = 1 then
        Inr (s\<lparr>poolings := poolings s @ [IdentityPooling]\<rparr>)
      else if patch_size s \<noteq> 1 \<and> n_side s \<noteq> 1 then
        (case shrink_patch (patch_size s) of
           Inl e \<Rightarrow> Inl e
         | Inr p \<Rightarrow>
             Inr (s\<lparr>poolings := poolings s @ [MixedPooling (pool_kernel (patch_size s))
                                                    (pool_stride (patch_size s))],
                    patch_size := p,
                    n_side := n_side s div 2\<rparr>))
      else if patch_size s = 1 then
        Inr (s\<lparr>poolings := poolings s @ [HealpixPooling], n_side := n_side s div 2\<rparr>)
      else
        (case shrink_patch (patch_size s) of
           Inl e \<Rightarrow> Inl e
         | Inr p \<Rightarrow>
             Inr (s\<lparr>poolings := poolings s @ [SpatialPooling None], patch_size := p\<rparr>)))"

definition step_spherical :: "pool_state \<Rightarrow> pool_state" where
  "step_spherical s =
     (let s = s\<lparr>patch_size_list := patch_size_list s @ [patch_size s]\<rparr> in
      if n_side s \<noteq> 1 then
        s\<lparr>poolings := poolings s @ [HealpixPooling], n_side := n_side s div 2\<rparr>
      else
        s\<lparr>poolings := poolings s @ [IdentityPooling]\<rparr>)"

definition step_spatial :: "pool_state \<Rightarrow> py_error + pool_state" where
  "step_spatial s =
     (let s = s\<lparr>patch_size_list := patch_size_list s @ [patch_size s]\<rparr> in
      if patch_size s \<noteq> 1 then
        (case shrink_patch (patch_size s) of
           Inl e \<Rightarrow> Inl e
         | Inr p \<Rightarrow>
             Inr (s\<lparr>poolings := poolings s @ [SpatialPooling (Some (pool_kernel (patch_size s),
                                                                    pool_stride (patch_size s)))],
                    patch_size := p\<rparr>))
      else
        Inr (s\<lparr>poolings := poolings s @ [IdentityPooling]\<rparr>))"

definition step_muller :: "pool_state \<Rightarrow> pool_state" where
  "step_muller s = s\<lparr>poolings := poolings s @ [IdentityPooling]\<rparr>"

text \<open>The \<open>if/elif\<close> chain on \<open>pooling_name\<close>; a name in none of the lists builds no pooling.\<close>

definition pool_step :: "string \<Rightarrow> pool_state \<Rightarrow> py_error + pool_state" where
  "pool_step pooling_name s =
     (if pooling_name \<in> set [''mixed'', ''bekkers''] then step_mixed s
      else if pooling_name \<in> set [''spherical''] then Inr (step_spherical s)
      else if pooling_name \<in> set [''spatial'', ''spatial_vec'', ''spatial_sh''] then step_spatial s
      else if pooling_name = ''muller'' then Inr (step_muller s)
      else Inr s)"

fun pool_loop :: "string \<Rightarrow> nat \<Rightarrow> pool_state \<Rightarrow> py_error + pool_state" where
  "pool_loop pooling_name 0 s = Inr s"
| "pool_loop pooling_name (Suc n) s =
     (case pool_step pooling_name s of
        Inl e \<Rightarrow> Inl e
      | Inr s' \<Rightarrow> pool_loop pooling_name n s')"

definition get_healpix_poolings ::
  "int \<Rightarrow> int \<Rightarrow> int \<Rightarrow> string \<Rightarrow> py_error + (pooling list \<times> int list)" where
  "get_healpix_poolings depth patch_size0 n_side0 pooling_name =
     (let s0 = \<lparr>patch_size = patch_size0, n_side = n_side0, poolings = [],
                patch_size_list = (if pooling_name = ''muller'' then [patch_size0] else [])\<rparr>
      in case pool_loop pooling_name (nat (depth - 1)) s0 of
           Inl e \<Rightarrow> Inl e
         | Inr s \<Rightarrow>
             let s = s\<lparr>patch_size_list := patch_size_list s @ [patch_size s]\<rparr>
             in Inr (rev (poolings s), rev (patch_size_list s)))"

text \<open>The schedule the claim's formula describes, with the floors taken term by term.\<close>

definition spec_shrink_patch :: "int \<Rightarrow> int" where
  "spec_shrink_patch sz = ((sz - 2) div 2) * (sz mod 2) + sz div 2"

definition shrinks_patch :: "string \<Rightarrow> bool" where
  "shrinks_patch pooling_name \<longleftrightarrow>
     pooling_name \<in> set [''mixed'', ''bekkers'', ''spatial'', ''spatial_vec'', ''spatial_sh'']"

section \<open>sampling.py: spherical-harmonic matrices\<close>

text \<open>
  The numerical primitives the file takes from scipy and numpy and that HOL does not
  provide are parameters of the model: \<open>scipy.special.sph_harm(m, n, theta, phi)\<close>,
  \<open>numpy.arctan2\<close> and \<open>numpy.linalg.inv\<close> (which raises LinAlgError on a singular
  matrix). numpy arrays are tensors of reals.
\<close>

record numlib =
  sph_harm :: "int \<Rightarrow> int \<Rightarrow> real \<Rightarrow> real \<Rightarrow> complex"
  arctan2 :: "real \<Rightarrow> real \<Rightarrow> real"
  linalg_inv :: "real tensor \<Rightarrow> py_error + real tensor"

text \<open>\<open>x % (2 * np.pi)\<close> on floats.\<close>

definition fmod_2pi :: "real \<Rightarrow> real" where
  "fmod_2pi x = x - 2 * pi * real_of_int \<lfloor>x / (2 * pi)\<rfloor>"

text \<open>The pairs \<open>(colat, lon)\<close> of the rows of \<open>vector\<close>.\<close>

definition gradients_of :: "numlib \<Rightarrow> real tensor \<Rightarrow> (real \<times> real) list" where
  "gradients_of lib vector =
     map (\<lambda>i. let x = data vector ! (i * 3); y = data vector ! (i * 3 + 1);
                   z = data vector ! (i * 3 + 2)
               in (arccos z, fmod_2pi (arctan2 lib y x)))
         [0..<shape vector ! 0]"

definition num_coefficients_of :: "int \<Rightarrow> int \<Rightarrow> bool \<Rightarrow> int" where
  "num_coefficients_of sh_degree with_order symmetric =
     (if symmetric then
        (if with_order = 1
         then py_int (real_of_int (sh_degree + 1) * (real_of_int sh_degree / 2 + 1))
         else sh_degree div 2 + 1)
      else
        (if with_order = 1 then (sh_degree + 1) ^ 2 else sh_degree + 1))"

text \<open>
  The pairs \<open>(id_degree, id_order)\<close> in the order the two inner loops visit them:
  \<open>range(0, sh_degree + 1, int(symmetric + 1))\<close>, then
  \<open>range(-id_degree * with_order, id_degree * with_order + 1)\<close>.
\<close>

definition sh_rows :: "int \<Rightarrow> int \<Rightarrow> bool \<Rightarrow> (int \<times> int) list" where
  "sh_rows sh_degree with_order symmetric =
     concat (map (\<lambda>l. map (\<lambda>m. (l, m)) [- l * with_order..l * with_order])
                 (filter (\<lambda>l. l mod (if symmetric then 2 else 1) = 0) [0..sh_degree]))"

definition sh_entry :: "numlib \<Rightarrow> int \<times> int \<Rightarrow> real \<times> real \<Rightarrow> real" where
  "sh_entry lib lm g =
     (case lm of (id_degree, id_order) \<Rightarrow>
      case g of (gradients_phi, gradients_theta) \<Rightarrow>
        let y = sph_harm lib \<bar>id_order\<bar> id_degree gradients_theta gradients_phi in
        if id_order < 0 then Im y * sqrt 2
        else if id_order = 0 then Re y
        else Re y * sqrt 2)"

definition sh_matrix ::
  "numlib \<Rightarrow> int \<Rightarrow> real tensor \<Rightarrow> int \<Rightarrow> bool \<Rightarrow> py_error + (real tensor \<times> real tensor)" where
  "sh_matrix lib sh_degree vector with_order symmetric =
     (if with_order \<notin> set [0, 1] then Inl ValueError
      else if symmetric \<and> sh_degree mod 2 \<noteq> 0 then Inl ValueError
      else
        let gradients = gradients_of lib vector;
            num_gradients = length gradients;
            num_coefficients = num_coefficients_of sh_degree with_order symmetric;
            rows = sh_rows sh_degree with_order symmetric
        in
        if num_coefficients < 0 then Inl ValueError
        else if num_gradients > 0 \<and> int (length rows) > num_coefficients then Inl IndexError
        else
          let b = Tensor [nat num_coefficients, num_gradients]
                    (concat (map (\<lambda>r. map (\<lambda>g. if r < length rows
                                                  then sh_entry lib (rows ! r) g else 0)
                                           gradients)
                                 [0..<nat num_coefficients]))
          in
          case linalg_inv lib (mm b (permute [1, 0] b)) of
            Inl e \<Rightarrow> Inl e
          | Inr b_inv \<Rightarrow> Inr (mm (permute [1, 0] b) b_inv, b))"

text \<open>
  \<open>2*int((np.sqrt(8*N - 7) - 3) / 4)\<close>. For \<open>N = 0\<close> the square root is not a number,
  and \<open>int\<close> raises ValueError. The float square root is read as the real one: the two
  truncate to the same integer for every \<open>N\<close> below \<open>2 ^ 50\<close>.
\<close>

definition sh_degree_auto :: "nat \<Rightarrow> py_error + int" where
  "sh_degree_auto N =
     (if 8 * int N - 7 < 0 then Inl ValueError
      else Inr (2 * py_int ((sqrt (real_of_int (8 * int N - 7)) - 3) / 4)))"

record sampling =
  vectors :: "real tensor"
  S2SH :: "real tensor"
  SH2S :: "real tensor"

definition py_min_opt :: "int \<Rightarrow> int option \<Rightarrow> int" where
  "py_min_opt d max_sh_degree = (case max_sh_degree of None \<Rightarrow> d | Some m \<Rightarrow> min d m)"

text \<open>The branch \<open>if constant:\<close> of \<open>Sampling.__init__\<close>, for the degree already chosen.\<close>

definition sampling_constant :: "real tensor \<Rightarrow> int \<Rightarrow> py_error + sampling" where
  "sampling_constant vecs sh_degree =
     (let N = shape vecs ! 0;
          s2sh = Tensor [N, 1] (map (\<lambda>x. x * sqrt (4 * pi) / real N) (replicate (N * 1) 1));
          n_rows = (sh_degree + 1) * (sh_degree div 2 + 1)
      in
      if n_rows < 0 then Inl ValueError
      else if n_rows = 0 then Inl IndexError
      else
        let sh2s = set0 0 (Tensor [N] (replicate N (1 / sqrt (4 * pi))))
                     (zeros [nat n_rows, N])
        in Inr \<lparr>vectors = vecs, S2SH = s2sh, SH2S = sh2s\<rparr>)"

text \<open>The branch \<open>else:\<close> of \<open>Sampling.__init__\<close>.\<close>

definition sampling_lstsq ::
  "numlib \<Rightarrow> real tensor \<Rightarrow> int \<Rightarrow> int option \<Rightarrow> py_error + sampling" where
  "sampling_lstsq lib vecs sh_degree max_sh_degree =
     (case sh_matrix lib sh_degree vecs 1 True of
        Inl e \<Rightarrow> Inl e
      | Inr (_, sh2s) \<Rightarrow>
          (case sh_degree_auto (shape vecs ! 0) of
             Inl e \<Rightarrow> Inl e
           | Inr d \<Rightarrow>
               let sh_degree_s2sh = py_min_opt (min d sh_degree) max_sh_degree in
               (case sh_matrix lib sh_degree_s2sh vecs 1 True of
                  Inl e \<Rightarrow> Inl e
                | Inr (s2sh, _) \<Rightarrow> Inr \<lparr>vectors = vecs, S2SH = s2sh, SH2S = sh2s\<rparr>)))"

text \<open>
  \<open>Sampling.__init__(vectors, sh_degree, max_sh_degree, constant)\<close>; \<open>None\<close> is the
  default of the two degrees.
\<close>

definition Sampling_init ::
  "numlib \<Rightarrow> real tensor \<Rightarrow> int option \<Rightarrow> int option \<Rightarrow> bool \<Rightarrow> py_error + sampling" where
  "Sampling_init lib vecs sh_degree max_sh_degree constant =
     (if length (shape vecs) < 2 then Inl IndexError
      else if shape vecs ! 1 \<noteq> 3 then Inl AssertionError
      else
        case (case sh_degree of
                None \<Rightarrow> (case sh_degree_auto (shape vecs ! 0) of
                            Inl e \<Rightarrow> Inl e
                          | Inr d \<Rightarrow> Inr (py_min_opt d max_sh_degree))
              | Some d \<Rightarrow> Inr d) of
          Inl e \<Rightarrow> Inl e
        | Inr d \<Rightarrow>
            if constant then sampling_constant vecs d
            else sampling_lstsq lib vecs d max_sh_degree)"

text \<open>The number of coefficients of an even degree, \<open>(L + 1)(L / 2 + 1)\<close>.\<close>

definition n_coef :: "int \<Rightarrow> int" where
  "n_coef L = (L + 1) * (L div 2 + 1)"

text \<open>A concrete library and six directions (the coordinate axes), for closed examples.\<close>

definition lib0 :: numlib where
  "lib0 = \<lparr>sph_harm = (\<lambda>m n theta phi. 1), arctan2 = (\<lambda>y x. 0), linalg_inv = Inr\<rparr>"

definition axes6 :: "real tensor" where
  "axes6 = Tensor [6, 3] [1, 0, 0, -1, 0, 0, 0, 1, 0, 0, -1, 0, 0, 0, 1, 0, 0, -1]"

section \<open>graphconv.py: modules and their state dict\<close>

text \<open>
  A \<open>torch.nn.Module\<close> is modelled by what \<open>state_dict\<close> reads: its registered
  parameters (a parameter registered as \<open>None\<close> is kept as \<open>None\<close>), its registered
  buffers (every buffer of this file is persistent), its child modules by attribute
  name, and the suffix that the class's override of \<open>state_dict\<close> deletes, if the class
  has one.
\<close>

datatype 't module =
  Module (params: "(string \<times> 't option) list")
         (buffers: "(string \<times> 't) list")
         (children: "(string \<times> 't module) list")
         (del_suffix: "string option")

definition endswith :: "string \<Rightarrow> string \<Rightarrow> bool" where
  "endswith s suf \<longleftrightarrow> length suf \<le> length s \<and> drop (length s - length suf) s = suf"

text \<open>\<open>destination[key] = value\<close> on an ordered dictionary.\<close>

fun dict_set :: "(string \<times> 't) list \<Rightarrow> string \<Rightarrow> 't \<Rightarrow> (string \<times> 't) list" where
  "dict_set [] k v = [(k, v)]"
| "dict_set ((k', v') # d) k v = (if k' = k then (k, v) # d else (k', v') # dict_set d k v)"

text \<open>\<open>Module._save_to_state_dict\<close>: the module's own parameters, then its buffers.\<close>

fun save_params :: "(string \<times> 't option) list \<Rightarrow> string \<Rightarrow> (string \<times> 't) list \<Rightarrow> (string \<times> 't) list" where
  "save_params [] prefix dest = dest"
| "save_params ((name, None) # ps) prefix dest = save_params ps prefix dest"
| "save_params ((name, Some v) # ps) prefix dest =
     save_params ps prefix (dict_set dest (prefix @ name) v)"

fun save_buffers :: "(string \<times> 't) list \<Rightarrow> string \<Rightarrow> (string \<times> 't) list \<Rightarrow> (string \<times> 't) list" where
  "save_buffers [] prefix dest = dest"
| "save_buffers ((name, v) # bs) prefix dest =
     save_buffers bs prefix (dict_set dest (prefix @ name) v)"

text \<open>
  \<open>Module.state_dict(destination, prefix)\<close> writes the module's own entries into the
  shared \<open>destination\<close> and then calls \<open>state_dict\<close> of every child with the extended
  prefix. The overrides of this file call it through \<open>super()\<close>, collect the keys of the
  returned dictionary that end with their suffix, and delete them.
\<close>

fun state_dict :: "'t module \<Rightarrow> string \<Rightarrow> (string \<times> 't) list \<Rightarrow> (string \<times> 't) list"
  and state_dict_children ::
    "(string \<times> 't module) list \<Rightarrow> string \<Rightarrow> (string \<times> 't) list \<Rightarrow> (string \<times> 't) list" where
  "state_dict (Module ps bs cs del) prefix dest =
     (let dest = save_buffers bs prefix (save_params ps prefix dest);
          dest = state_dict_children cs prefix dest
      in case del of
           None \<Rightarrow> dest
         | Some suf \<Rightarrow> filter (\<lambda>kv. \<not> endswith (fst kv) suf) dest)"
| "state_dict_children [] prefix dest = dest"
| "state_dict_children ((name, m) # cs) prefix dest =
     state_dict_children cs prefix (state_dict m (prefix @ name @ ''.'') dest)"

text \<open>The keys under which the parameters and the buffers of a module tree are registered.\<close>

fun param_keys :: "'t module \<Rightarrow> string \<Rightarrow> string list"
  and param_keys_children :: "(string \<times> 't module) list \<Rightarrow> string \<Rightarrow> string list" where
  "param_keys (Module ps bs cs del) prefix =
     map (\<lambda>p. prefix @ fst p) (filter (\<lambda>p. snd p \<noteq> None) ps) @ param_keys_children cs prefix"
| "param_keys_children [] prefix = []"
| "param_keys_children ((name, m) # cs) prefix =
     param_keys m (prefix @ name @ ''.'') @ param_keys_children cs prefix"

fun buffer_keys :: "'t module \<Rightarrow> string \<Rightarrow> string list"
  and buffer_keys_children :: "(string \<times> 't module) list \<Rightarrow> string \<Rightarrow> string list" where
  "buffer_keys (Module ps bs cs del) prefix =
     map (\<lambda>b. prefix @ fst b) bs @ buffer_keys_children cs prefix"
| "buffer_keys_children [] prefix = []"
| "buffer_keys_children ((name, m) # cs) prefix =
     buffer_keys m (prefix @ name @ ''.'') @ buffer_keys_children cs prefix"

text \<open>
  The constructors register tensors whose initial values (random weights, the constant
  bias, the selection mask) do not matter to the keys; \<open>init\<close> supplies the tensor
  registered under each attribute name.
\<close>

definition bias_param :: "(string \<Rightarrow> 't) \<Rightarrow> bool \<Rightarrow> string \<times> 't option" where
  "bias_param init bias = (''bias'', if bias then Some (init ''bias'') else None)"

definition ChebConv_init :: "(string \<Rightarrow> 't) \<Rightarrow> bool \<Rightarrow> 't module" where
  "ChebConv_init init bias =
     Module [(''weight'', Some (init ''weight'')), bias_param init bias] [] [] None"

definition SO3SE3Conv_init :: "(string \<Rightarrow> 't) \<Rightarrow> bool \<Rightarrow> bool \<Rightarrow> 't module" where
  "SO3SE3Conv_init init bias isoSpa =
     Module [(''weightSph'', Some (init ''weightSph'')),
             (''weightSpa'', Some (init ''weightSpa'')),
             bias_param init bias]
            (if isoSpa then [(''weight_tmp'', init ''weight_tmp'')] else [])
            [] None"

definition SpatialConv_init :: "(string \<Rightarrow> 't) \<Rightarrow> bool \<Rightarrow> bool \<Rightarrow> 't module" where
  "SpatialConv_init init bias isoSpa =
     Module [(''weightSpa'', Some (init ''weightSpa'')), bias_param init bias]
            (if isoSpa then [(''weight_tmp'', init ''weight_tmp'')] else [])
            [] None"

text \<open>
  \<open>Conv.__init__\<close>: the buffer \<open>laplacian\<close> holds the Laplacian, or the projector when
  \<open>precompute\<close> is set; an unknown \<open>conv_name\<close> raises NotImplementedError.
\<close>

definition Conv_init ::
  "(string \<Rightarrow> 't) \<Rightarrow> 't \<Rightarrow> string \<Rightarrow> bool \<Rightarrow> bool \<Rightarrow> py_error + 't module" where
  "Conv_init init laplacian_buffer conv_name bias isoSpa =
     (if conv_name = ''spherical'' then
        Inr (Module [] [(''laplacian'', laplacian_buffer)]
               [(''conv'', ChebConv_init init bias)] (Some ''laplacian''))
      else if conv_name = ''mixed'' then
        Inr (Module [] [(''laplacian'', laplacian_buffer)]
               [(''conv'', SO3SE3Conv_init init bias isoSpa)] (Some ''laplacian''))
      else if conv_name \<in> set [''spatial'', ''spatial_vec'', ''spatial_sh''] then
        Inr (Module [] [(''laplacian'', laplacian_buffer)]
               [(''conv'', SpatialConv_init init bias isoSpa)] (Some ''laplacian''))
      else Inl NotImplementedError)"

definition ChebConvPrecomputed_init :: "(string \<Rightarrow> 't) \<Rightarrow> 't \<Rightarrow> bool \<Rightarrow> 't module" where
  "ChebConvPrecomputed_init init projector bias =
     Module [(''weight'', Some (init ''weight'')), bias_param init bias]
            [(''projector'', projector)] [] (Some ''projector'')"

definition SO3SE3ConvPrecomputer_init ::
  "(string \<Rightarrow> 't) \<Rightarrow> 't \<Rightarrow> bool \<Rightarrow> bool \<Rightarrow> 't module" where
  "SO3SE3ConvPrecomputer_init init projector bias isoSpa =
     Module [(''weightSph'', Some (init ''weightSph'')),
             (''weightSpa'', Some (init ''weightSpa'')),
             bias_param init bias]
            ((''projector'', projector)
               # (if isoSpa then [(''weight_tmp'', init ''weight_tmp'')] else []))
            [] (Some ''projector'')"

text \<open>\<open>torch.nn.Linear\<close>, a module without parameters (GELU, PolynomialFeatures), and
  the \<open>torch.nn.Sequential\<close> of the two MLPs, whose children are named by position.\<close>

definition Linear_init :: "(string \<Rightarrow> 't) \<Rightarrow> bool \<Rightarrow> 't module" where
  "Linear_init init bias =
     Module [(''weight'', Some (init ''weight'')), bias_param init bias] [] [] None"

definition plain_module :: "'t module" where
  "plain_module = Module [] [] [] None"

definition mlp_init :: "(string \<Rightarrow> 't) \<Rightarrow> 't module" where
  "mlp_init init =
     Module [] []
       [(''0'', plain_module), (''1'', Linear_init init True), (''2'', plain_module),
        (''3'', Linear_init init True), (''4'', plain_module), (''5'', Linear_init init False)]
       None"

definition FiberBundleConvFixedGraph_init :: "(string \<Rightarrow> 't) \<Rightarrow> bool \<Rightarrow> 't module" where
  "FiberBundleConvFixedGraph_init init bias =
     Module [(''spatial_weight'', Some (init ''spatial_weight'')),
             (''spherical_weight'', Some (init ''spherical_weight'')),
             bias_param init bias]
            [] [(''mixing'', Linear_init init False)] None"

definition FiberBundleConvFixedGraphMLP_init :: "(string \<Rightarrow> 't) \<Rightarrow> bool \<Rightarrow> 't module" where
  "FiberBundleConvFixedGraphMLP_init init bias =
     Module [bias_param init bias]
            [(''spatial_attr_unique_tuple'', init ''spatial_attr_unique_tuple''),
             (''spherical_attr_unique'', init ''spherical_attr_unique'')]
            [(''basis'', mlp_init init), (''fiber_basis'', mlp_init init)] None"

text \<open>\<open>ConvPrecomputed.__init__\<close>; the variant \<open>bekkers\<close> is always built with a bias.\<close>

definition ConvPrecomputed_init ::
  "(string \<Rightarrow> 't) \<Rightarrow> 't \<Rightarrow> string \<Rightarrow> bool \<Rightarrow> bool \<Rightarrow> py_error + 't module" where
  "ConvPrecomputed_init init projector conv_name bias isoSpa =
     (if conv_name = ''spherical'' then
        Inr (Module [] [] [(''conv'', ChebConvPrecomputed_init init projector bias)]
               (Some ''laplacian''))
      else if conv_name = ''mixed'' then
        Inr (Module [] [] [(''conv'', SO3SE3ConvPrecomputer_init init projector bias isoSpa)]
               (Some ''laplacian''))
      else if conv_name \<in> set [''spatial'', ''spatial_vec'', ''spatial_sh''] then
        Inr (Module [] [] [(''conv'', SpatialConv_init init bias isoSpa)] (Some ''laplacian''))
      else if conv_name = ''bekkers'' then
        Inr (Module [] [] [(''conv'', FiberBundleConvFixedGraph_init init True)]
               (Some ''laplacian''))
      else if conv_name = ''bekkers2'' then
        Inr (Module [] [] [(''conv'', FiberBundleConvFixedGraphMLP_init init bias)]
               (Some ''laplacian''))
      else Inl NotImplementedError)"

text \<open>The keys of the checkpoint of a layer, and the buffers the contract names.\<close>

definition checkpoint_keys :: "'t module \<Rightarrow> string list" where
  "checkpoint_keys m = map fst (state_dict m [] [])"

definition structural_key :: "string \<Rightarrow> bool" where
  "structural_key k \<longleftrightarrow> endswith k ''laplacian'' \<or> endswith k ''projector''"

section \<open>graphconv.py: the convolutions\<close>

text \<open>
  \<open>torch.nn.functional.conv3d(inputs, weight, bias, padding='same')\<close> is a primitive of
  the tensor runtime. It is a parameter \<open>conv3d\<close> of the convolutions below, applied to
  the input, the kernel and the optional bias; what is proved about them holds for
  every such function.
\<close>

type_synonym 'a conv3d = "'a tensor \<Rightarrow> 'a tensor \<Rightarrow> 'a tensor option \<Rightarrow> 'a tensor"

text \<open>
  The projection of the input on the Chebyshev basis, common to \<open>cheb_conv\<close> and
  \<open>se3so3_conv\<close>: \<open>x0\<close> is the input with the vertex axis first, as a matrix
  \<open>[V, Fin * B * X * Y * Z]\<close>. \<open>Fin\<close> is the value the caller's variable holds at that
  point: a size of the weight in \<open>cheb_conv\<close> and \<open>se3so3_conv\<close>, of the input in
  \<open>SO3SE3ConvPrecomputer\<close>.
\<close>

definition vertex_matrix :: "nat \<Rightarrow> 'a tensor \<Rightarrow> 'a tensor" where
  "vertex_matrix Fin inputs =
     (let s = shape inputs;
          B = s ! 0; V = s ! 2; X = s ! 3; Y = s ! 4; Z = s ! 5
      in reshape [V, Fin * B * X * Y * Z] (permute [2, 1, 0, 3, 4, 5] inputs))"

text \<open>
  \<open>t.view(ns)\<close> on a tensor \<open>t\<close> obtained by \<open>permute(p)\<close> from a contiguous tensor of
  shape \<open>s0\<close>, without \<open>contiguous()\<close>. The runtime compares the sizes and strides of
  \<open>t\<close> with the requested shape and raises RuntimeError when the elements cannot be
  addressed in the new shape without a copy. That test is a primitive of the tensor
  runtime: it is the parameter \<open>viewable\<close>, applied to the sizes, the strides and the
  requested shape.
\<close>

type_synonym view_test = "nat list \<Rightarrow> nat list \<Rightarrow> nat list \<Rightarrow> bool"

definition contiguous_strides :: "nat list \<Rightarrow> nat list" where
  "contiguous_strides s = map (\<lambda>a. prod_list (drop (Suc a) s)) [0..<length s]"

definition permuted_strides :: "nat list \<Rightarrow> nat list \<Rightarrow> nat list" where
  "permuted_strides s0 p = map (\<lambda>a. contiguous_strides s0 ! a) p"

definition view_permuted ::
  "view_test \<Rightarrow> nat list \<Rightarrow> nat list \<Rightarrow> nat list \<Rightarrow> 'a tensor \<Rightarrow> py_error + 'a tensor" where
  "view_permuted viewable s0 p ns t =
     (if viewable (shape t) (permuted_strides s0 p) ns then Inr (reshape ns t)
      else Inl RuntimeError)"

text \<open>
  \<open>cheb_conv\<close>. With the precomputed projector and without einsum, the projected input
  is permuted and not made contiguous before \<open>inputs.view([B * V * X * Y * Z, K * Fin])\<close>;
  in the branch of the recurrence \<open>contiguous()\<close> precedes that view.
\<close>

definition cheb_conv ::
  "view_test \<Rightarrow> 'a::comm_ring_1 tensor \<Rightarrow> 'a tensor \<Rightarrow> 'a tensor \<Rightarrow> bool \<Rightarrow> bool \<Rightarrow>
   py_error + 'a tensor" where
  "cheb_conv viewable laplacian inputs weight precompute einsum =
     (let s = shape inputs;
          B = s ! 0; V = s ! 2; X = s ! 3; Y = s ! 4; Z = s ! 5;
          K = shape weight ! 0; Fin = shape weight ! 1; Fout = shape weight ! 2;
          inputs =
            (if precompute then
               (if einsum then einsum_bfvxyz_kvw inputs laplacian
                else
                  let x0 = vertex_matrix Fin inputs;
                      inputs = mm laplacian x0
                  in permute [3, 1, 4, 5, 6, 0, 2] (reshape [K, V, Fin, B, X, Y, Z] inputs))
             else
               let x0 = vertex_matrix Fin inputs;
                   inputs = project_cheb_basis laplacian x0 K
               in permute [3, 1, 4, 5, 6, 0, 2] (reshape [K, V, Fin, B, X, Y, Z] inputs))
      in
      if einsum then
        let weight = reshape [K * Fin, Fout] (permute [1, 0, 2] weight);
            inputs = reshape [B, Fin * K, V, X, Y, Z] inputs
        in Inr (einsum_bfvxyz_fg inputs weight)
      else
        case (if precompute
              then view_permuted viewable [K, V, Fin, B, X, Y, Z] [3, 1, 4, 5, 6, 0, 2]
                     [B * V * X * Y * Z, K * Fin] inputs
              else Inr (reshape [B * V * X * Y * Z, K * Fin] inputs)) of
          Inl e \<Rightarrow> Inl e
        | Inr inputs \<Rightarrow>
            let weight = reshape [K * Fin, Fout] weight;
                inputs = mm inputs weight
            in Inr (permute [0, 5, 1, 2, 3, 4] (reshape [B, V, X, Y, Z, Fout] inputs)))"

text \<open>
  \<open>cheb_conv_dense\<close>: the same function with the dense recurrence, and \<open>reshape\<close>
  where \<open>cheb_conv\<close> has the view above.
\<close>

definition cheb_conv_dense ::
  "'a::comm_ring_1 tensor \<Rightarrow> 'a tensor \<Rightarrow> 'a tensor \<Rightarrow> bool \<Rightarrow> bool \<Rightarrow> 'a tensor" where
  "cheb_conv_dense laplacian inputs weight precompute einsum =
     (let s = shape inputs;
          B = s ! 0; V = s ! 2; X = s ! 3; Y = s ! 4; Z = s ! 5;
          K = shape weight ! 0; Fin = shape weight ! 1; Fout = shape weight ! 2;
          inputs =
            (if precompute then
               (if einsum then einsum_bfvxyz_kvw inputs laplacian
                else
                  let x0 = vertex_matrix Fin inputs;
                      inputs = mm laplacian x0
                  in permute [3, 1, 4, 5, 6, 0, 2] (reshape [K, V, Fin, B, X, Y, Z] inputs))
             else
               let x0 = vertex_matrix Fin inputs;
                   inputs = project_cheb_basis_dense laplacian x0 K
               in permute [3, 1, 4, 5, 6, 0, 2] (reshape [K, V, Fin, B, X, Y, Z] inputs))
      in
      if einsum then
        let weight = reshape [K * Fin, Fout] (permute [1, 0, 2] weight);
            inputs = reshape [B, Fin * K, V, X, Y, Z] inputs
        in einsum_bfvxyz_fg inputs weight
      else
        let inputs = reshape [B * V * X * Y * Z, K * Fin] inputs;
            weight = reshape [K * Fin, Fout] weight;
            inputs = mm inputs weight
        in permute [0, 5, 1, 2, 3, 4] (reshape [B, V, X, Y, Z, Fout] inputs))"

text \<open>
  The two layouts of the spatial kernel in \<open>se3so3_conv\<close>:
  \<open>weightSpa.repeat_interleave(K, dim=1)\<close> and
  \<open>weightSpa[:, :, None].expand(-1, -1, K, -1, -1, -1).flatten(1, 2)\<close>.
\<close>

definition wSpa_repeat_interleave :: "nat \<Rightarrow> 'a tensor \<Rightarrow> 'a tensor" where
  "wSpa_repeat_interleave K weightSpa = repeat_interleave K 1 weightSpa"

definition wSpa_expand :: "nat \<Rightarrow> 'a tensor \<Rightarrow> 'a tensor" where
  "wSpa_expand K weightSpa =
     flatten 1 2 (expand [None, None, Some K, None, None, None] (unsqueeze 2 weightSpa))"

text \<open>
  The fused kernel of \<open>se3so3_conv\<close> (the lines under "Expand spherical and Spatial
  filters"). The three tuple assignments at the head of the function leave \<open>Fout\<close>
  and \<open>Fin\<close> with the sizes of \<open>weightSpa\<close>.
\<close>

definition fused_kernel ::
  "'a::comm_ring_1 tensor \<Rightarrow> 'a tensor \<Rightarrow> bool \<Rightarrow> 'a tensor" where
  "fused_kernel weightSph weightSpa repeat_interleave_flag =
     (let K = shape weightSph ! 2;
          Fout = shape weightSpa ! 0; Fin = shape weightSpa ! 1;
          kX = shape weightSpa ! 2; kY = shape weightSpa ! 3; kZ = shape weightSpa ! 4;
          wSph = expand [None, None, Some kX, Some kY, Some kZ]
                   (reshape [Fout, Fin * K, 1, 1, 1] weightSph);
          wSpa = (if repeat_interleave_flag then wSpa_repeat_interleave K weightSpa
                  else wSpa_expand K weightSpa)
      in mul wSph wSpa)"

text \<open>
  \<open>se3so3_conv\<close>, written once for the projection \<open>project\<close> it uses in the branch
  without precomputation.
\<close>

definition se3so3_conv_with ::
  "('a::comm_ring_1 tensor \<Rightarrow> 'a tensor \<Rightarrow> nat \<Rightarrow> 'a tensor) \<Rightarrow> 'a conv3d \<Rightarrow>
   'a tensor \<Rightarrow> 'a tensor \<Rightarrow> 'a tensor \<Rightarrow> 'a tensor \<Rightarrow> bool \<Rightarrow> bool \<Rightarrow> bool \<Rightarrow> 'a tensor" where
  "se3so3_conv_with project conv3d laplacian inputs weightSph weightSpa
       precompute einsum repeat_interleave_flag =
     (let s = shape inputs;
          B = s ! 0; V = s ! 2; X = s ! 3; Y = s ! 4; Z = s ! 5;
          K = shape weightSph ! 2;
          Fout = shape weightSpa ! 0; Fin = shape weightSpa ! 1;
          inputs =
            (if precompute then
               (if einsum then
                  let inputs = einsum_bfvxyz_kvw inputs laplacian;
                      inputs = permute [0, 3, 1, 2, 4, 5, 6] inputs
                  in reshape [B * V, Fin * K, X, Y, Z] inputs
                else
                  let x0 = vertex_matrix Fin inputs;
                      inputs = mm laplacian x0;
                      inputs = reshape [K, V, Fin, B, X, Y, Z] inputs;
                      inputs = permute [3, 1, 2, 0, 4, 5, 6] inputs
                  in reshape [B * V, Fin * K, X, Y, Z] inputs)
             else
               let x0 = vertex_matrix Fin inputs;
                   inputs = project laplacian x0 K;
                   inputs = reshape [K, V, Fin, B, X, Y, Z] inputs;
                   inputs = permute [3, 1, 2, 0, 4, 5, 6] inputs
               in reshape [B * V, Fin * K, X, Y, Z] inputs);
          weight = fused_kernel weightSph weightSpa repeat_interleave_flag;
          inputs = conv3d inputs weight None;
          inputs = reshape [B, V, Fout, X, Y, Z] inputs
      in permute [0, 2, 1, 3, 4, 5] inputs)"

definition se3so3_conv ::
  "'a::comm_ring_1 conv3d \<Rightarrow> 'a tensor \<Rightarrow> 'a tensor \<Rightarrow> 'a tensor \<Rightarrow> 'a tensor
     \<Rightarrow> bool \<Rightarrow> bool \<Rightarrow> bool \<Rightarrow> 'a tensor" where
  "se3so3_conv = se3so3_conv_with project_cheb_basis"

definition se3so3_conv_dense ::
  "'a::comm_ring_1 conv3d \<Rightarrow> 'a tensor \<Rightarrow> 'a tensor \<Rightarrow> 'a tensor \<Rightarrow> 'a tensor
     \<Rightarrow> bool \<Rightarrow> bool \<Rightarrow> bool \<Rightarrow> 'a tensor" where
  "se3so3_conv_dense = se3so3_conv_with project_cheb_basis_dense"

text \<open>
  \<open>torch.sum(self.weight_tmp * self.weightSpa, -1)\<close>: the compact weight, of shape
  \<open>[Fout, Fin, 1, 1, 1, R]\<close>, is broadcast to the shape of the mask.
\<close>

definition iso_weight :: "'a::comm_ring_1 tensor \<Rightarrow> 'a tensor \<Rightarrow> 'a tensor" where
  "iso_weight weight_tmp weightSpa =
     sum_last (mul weight_tmp (expand (map Some (shape weight_tmp)) weightSpa))"

text \<open>\<open>SO3SE3ConvPrecomputer\<close>: the attributes its method \<open>se3so3_conv\<close> reads.\<close>

record 'a so3se3_precomputer =
  projector :: "'a tensor"
  weightSph :: "'a tensor"
  weightSpa :: "'a tensor"
  weight_tmp :: "'a tensor"
  bias :: "'a tensor option"
  out_channels :: nat
  kernel_sizeSph :: nat
  kernel_sizeSpa :: nat
  isoSpa :: bool

definition precomputer_se3so3_conv ::
  "'a::comm_ring_1 conv3d \<Rightarrow> 'a so3se3_precomputer \<Rightarrow> 'a tensor \<Rightarrow> 'a tensor" where
  "precomputer_se3so3_conv conv3d self inputs =
     (let s = shape inputs;
          B = s ! 0; Fin = s ! 1; V = s ! 2; X = s ! 3; Y = s ! 4; Z = s ! 5;
          K = kernel_sizeSph self;
          inputs = vertex_matrix Fin inputs;
          inputs = mm (projector self) inputs;
          inputs = reshape [B * V, Fin * K, X, Y, Z]
                     (permute [3, 1, 2, 0, 4, 5, 6] (reshape [K, V, Fin, B, X, Y, Z] inputs));
          weight =
            (if kernel_sizeSpa self > 1 then
               let wSph = expand [None, None, Some (kernel_sizeSpa self),
                                  Some (kernel_sizeSpa self), Some (kernel_sizeSpa self)]
                            (weightSph self);
                   weightSpa = (if isoSpa self then iso_weight (weight_tmp self) (weightSpa self)
                                else weightSpa self);
                   wSpa = wSpa_expand K weightSpa
               in mul wSph wSpa
             else weightSph self);
          inputs = conv3d inputs weight (bias self)
      in permute [0, 2, 1, 3, 4, 5] (reshape [B, V, out_channels self, X, Y, Z] inputs))"

section \<open>graphconv.py: the isotropic selection mask\<close>

text \<open>
  \<open>get_index(size)\<close>. The coordinates \<open>np.arange(size) - (size - 1) / 2\<close> are integers
  or half-integers, so four times the squared distance of an offset from the centre is
  the integer \<open>qdist\<close>. \<open>np.sqrt\<close> is increasing and maps different such values to
  different floats: \<open>np.unique\<close> sorts and numbers the distances as it would their
  squares, and the model works on \<open>qdist\<close>.
\<close>

definition qcoord :: "nat \<Rightarrow> nat \<Rightarrow> int" where
  "qcoord sz a = 2 * int a - (int sz - 1)"

definition qdist :: "nat \<Rightarrow> nat \<Rightarrow> nat \<Rightarrow> nat \<Rightarrow> int" where
  "qdist sz a b c = (qcoord sz c)\<^sup>2 + (qcoord sz b)\<^sup>2 + (qcoord sz a)\<^sup>2"

definition distance_flat :: "nat \<Rightarrow> int list" where
  "distance_flat sz =
     concat (map (\<lambda>a. concat (map (\<lambda>b. map (\<lambda>c. qdist sz a b c) [0..<sz]) [0..<sz]))
                 [0..<sz])"

text \<open>\<open>np.unique(xs, return_inverse=True)\<close>.\<close>

definition np_unique :: "int list \<Rightarrow> int list \<times> nat list" where
  "np_unique xs = (let u = sort (remdups xs) in (u, map (index_of u) xs))"

text \<open>
  One iteration of the loop: \<open>weight_tmp[:, :, :, :, :, i][:, :, ind == i] = 1\<close> sets the
  entries with last index \<open>i\<close> at the offsets whose bucket is \<open>i\<close>.
\<close>

definition mask_assign :: "nat \<Rightarrow> nat list \<Rightarrow> nat \<Rightarrow> 'a::comm_ring_1 tensor \<Rightarrow> 'a tensor" where
  "mask_assign sz ind i w =
     Tensor (shape w)
       (map (\<lambda>idx. case unravel (shape w) idx of
                      [out, inp, x, y, z, b] \<Rightarrow>
                        if b = i \<and> ind ! ravel [sz, sz, sz] [x, y, z] = i then 1
                        else data w ! idx
                    | _ \<Rightarrow> data w ! idx)
            [0..<length (data w)])"

definition get_index ::
  "nat \<Rightarrow> nat \<Rightarrow> nat \<Rightarrow> 'a::comm_ring_1 tensor \<times> nat list \<times> int list" where
  "get_index Fout Fin sz =
     (let distance = distance_flat sz;
          (unique, ind) = np_unique distance;
          weight_tmp = zeros [Fout, Fin, sz, sz, sz, length unique];
          weight_tmp = fold (mask_assign sz ind) [0..<length unique] weight_tmp
      in (weight_tmp, ind, distance))"

text \<open>The sorted distinct distances, and the bucket of an offset.\<close>

definition unique_distances :: "nat \<Rightarrow> int list" where
  "unique_distances sz = fst (np_unique (distance_flat sz))"

definition bucket :: "nat \<Rightarrow> nat \<Rightarrow> nat \<Rightarrow> nat \<Rightarrow> nat" where
  "bucket sz x y z = snd (np_unique (distance_flat sz)) ! ravel [sz, sz, sz] [x, y, z]"

section \<open>The Chebyshev contract\<close>

text \<open>
  The three-term recurrence as the contract of the projector states it:
  \<open>basis[0] = x0\<close>, \<open>basis[1] = L x0\<close>, \<open>basis[k] = 2 L basis[k-1] - basis[k-2]\<close>.
\<close>

fun cheb_seq :: "'a::comm_ring_1 tensor \<Rightarrow> 'a tensor \<Rightarrow> nat \<Rightarrow> 'a tensor" where
  "cheb_seq L x 0 = x"
| "cheb_seq L x (Suc 0) = mm L x"
| "cheb_seq L x (Suc (Suc k)) = sub (scale 2 (mm L (cheb_seq L x (Suc k)))) (cheb_seq L x k)"

text \<open>
  A matrix given by its entries, in row-major order; the product and the recurrence on
  entries; and symmetry of a square matrix.
\<close>

definition tab :: "nat \<Rightarrow> nat \<Rightarrow> (nat \<Rightarrow> nat \<Rightarrow> 'a) \<Rightarrow> 'a list" where
  "tab n p f = concat (map (\<lambda>i. map (f i) [0..<p]) [0..<n])"

definition fmul ::
  "nat \<Rightarrow> (nat \<Rightarrow> nat \<Rightarrow> 'a::comm_ring_1) \<Rightarrow> (nat \<Rightarrow> nat \<Rightarrow> 'a) \<Rightarrow> nat \<Rightarrow> nat \<Rightarrow> 'a" where
  "fmul V A X i j = (\<Sum>k\<leftarrow>[0..<V]. A i k * X k j)"

fun cheb_fun ::
  "nat \<Rightarrow> (nat \<Rightarrow> nat \<Rightarrow> 'a::comm_ring_1) \<Rightarrow> (nat \<Rightarrow> nat \<Rightarrow> 'a) \<Rightarrow> nat \<Rightarrow> nat \<Rightarrow> nat \<Rightarrow> 'a" where
  "cheb_fun V A X 0 = X"
| "cheb_fun V A X (Suc 0) = fmul V A X"
| "cheb_fun V A X (Suc (Suc k)) =
     (\<lambda>i j. 2 * fmul V A (cheb_fun V A X (Suc k)) i j - cheb_fun V A X k i j)"

definition symmetric_matrix :: "'a tensor \<Rightarrow> bool" where
  "symmetric_matrix L \<longleftrightarrow>
     (let V = shape L ! 0 in
      list_all (\<lambda>i. list_all (\<lambda>j. data L ! (i * V + j) = data L ! (j * V + i)) [0..<V]) [0..<V])"

text \<open>The tensor \<open>[K, V, D]\<close> whose slice \<open>k\<close> along the first axis is \<open>b k\<close>.\<close>

definition stack :: "nat \<Rightarrow> nat \<Rightarrow> nat \<Rightarrow> (nat \<Rightarrow> 'a tensor) \<Rightarrow> 'a tensor" where
  "stack K V D b = Tensor [K, V, D] (concat (map (\<lambda>k. data (b k)) [0..<K]))"

text \<open>The entries of the identity matrix, and a stack whose slices from \<open>j\<close> on are still zero.\<close>

abbreviation delta :: "nat \<Rightarrow> nat \<Rightarrow> 'a::comm_ring_1" where
  "delta \<equiv> (\<lambda>i j. if i = j then 1 else 0)"

definition pstack :: "nat \<Rightarrow> nat \<Rightarrow> nat \<Rightarrow> (nat \<Rightarrow> 'a::comm_ring_1 tensor) \<Rightarrow> 'a tensor" where
  "pstack K V j P =
     Tensor [K, V, V]
       (concat (map (\<lambda>k. if k < j then data (P k) else replicate (V * V) 0) [0..<K]))"

section \<open>Patch-size schedule: results\<close>

text \<open>
  Floats of at most 53 significant bits are exact: rounding returns a value
  \<open>m * 2 ^ k\<close> with \<open>\<bar>m\<bar> \<le> 2 ^ 53\<close> unchanged.
\<close>

lemma round_half_even_of_int: "round_half_even (real_of_int z) = z"
  by (simp add: round_half_even_def)

lemma ulp_pos: "0 < ulp x"
  by (simp add: ulp_def)

lemma fl_of_multiple:
  assumes "x / ulp x = real_of_int z"
  shows "fl x = x"
proof -
  have "real_of_int z * ulp x = x" using assms ulp_pos [of x] by (simp add: field_simps)
  then show ?thesis by (simp add: fl_def assms round_half_even_of_int)
qed

lemma abs_real_le: "\<bar>m\<bar> \<le> 2 ^ 53 \<Longrightarrow> \<bar>real_of_int m\<bar> \<le> 2 ^ 53"
proof -
  assume "\<bar>m\<bar> \<le> 2 ^ 53"
  then have "real_of_int \<bar>m\<bar> \<le> real_of_int (2 ^ 53)" by (simp only: of_int_le_iff)
  then show ?thesis by simp
qed

lemma ld_scaled:
  assumes "m \<noteq> 0"
  shows "ld (real_of_int m * 2 powr real_of_int k) = \<lfloor>log 2 \<bar>real_of_int m\<bar>\<rfloor> + k"
proof -
  have "\<bar>real_of_int m * 2 powr real_of_int k\<bar> = \<bar>real_of_int m\<bar> * 2 powr real_of_int k"
    by (simp add: abs_mult)
  moreover have "log 2 (\<bar>real_of_int m\<bar> * 2 powr real_of_int k)
                  = log 2 \<bar>real_of_int m\<bar> + real_of_int k"
    using assms by (simp add: log_mult)
  ultimately show ?thesis by (simp add: ld_def)
qed

lemma fl_exact:
  assumes m: "\<bar>m\<bar> \<le> 2 ^ 53" and k: "- 1074 \<le> k"
  shows "fl (real_of_int m * 2 powr real_of_int k) = real_of_int m * 2 powr real_of_int k"
proof (cases "m = 0")
  case True
  then show ?thesis by (simp add: fl_def)
next
  case False
  let ?x = "real_of_int m * 2 powr real_of_int k"
  define lm where "lm = \<lfloor>log 2 \<bar>real_of_int m\<bar>\<rfloor>"
  have ldx: "ld ?x = lm + k" using False by (simp add: ld_scaled lm_def)
  have m1: "1 \<le> \<bar>real_of_int m\<bar>" using False by linarith
  have mr: "\<bar>real_of_int m\<bar> \<le> 2 ^ 53" using m by (rule abs_real_le)
  have l53: "log 2 (2 ^ 53) = 53" by (subst log_nat_power) simp_all
  have "log 2 \<bar>real_of_int m\<bar> \<le> log 2 (2 ^ 53)"
    using m1 mr by (subst log_le_cancel_iff) simp_all
  then have up: "log 2 \<bar>real_of_int m\<bar> \<le> 53" unfolding l53 .
  then have lm53: "lm \<le> 53" unfolding lm_def by linarith
  define E where "E = max (lm + k) (- 1022) - 52"
  have u: "ulp ?x = 2 powr real_of_int E" by (simp add: ulp_def ldx E_def)
  have q: "?x / ulp ?x = real_of_int m * 2 powr real_of_int (k - E)"
    unfolding u by (simp add: powr_diff)
  show ?thesis
  proof (cases "E \<le> k")
    case True
    then have "2 powr real_of_int (k - E) = (2::real) ^ nat (k - E)"
      by (simp add: powr_realpow [symmetric])
    then have "?x / ulp ?x = real_of_int (m * 2 ^ nat (k - E))" using q by simp
    then show ?thesis by (rule fl_of_multiple)
  next
    case F: False
    then have "52 < lm" using k unfolding E_def by linarith
    then have l: "lm = 53" using lm53 by simp
    then have "53 \<le> log 2 \<bar>real_of_int m\<bar>" unfolding lm_def by linarith
    then have "2 powr 53 \<le> \<bar>real_of_int m\<bar>"
      using m1 by (simp add: le_log_iff)
    then have "(2::real) ^ 53 \<le> \<bar>real_of_int m\<bar>"
      by (simp add: powr_realpow [symmetric])
    then have "real_of_int (2 ^ 53) \<le> real_of_int \<bar>m\<bar>" by simp
    then have "2 ^ 53 \<le> \<bar>m\<bar>" by (simp only: of_int_le_iff)
    then have am: "\<bar>m\<bar> = 2 ^ 53" using m by simp
    have "even \<bar>m\<bar>" unfolding am by simp
    then have ev: "even m" by simp
    have "k - E = - 1" using F l k unfolding E_def by linarith
    then have "?x / ulp ?x = real_of_int m * 2 powr (- 1)" using q by simp
    also have "\<dots> = real_of_int m / 2" by (simp add: powr_minus)
    also have "\<dots> = real_of_int (m div 2)" using ev by (auto elim: evenE)
    finally show ?thesis by (rule fl_of_multiple)
  qed
qed

lemma fl_of_int: "\<bar>m\<bar> \<le> 2 ^ 53 \<Longrightarrow> fl (real_of_int m) = real_of_int m"
  using fl_exact [of m 0] by simp

lemma fl_half: "\<bar>m\<bar> \<le> 2 ^ 53 \<Longrightarrow> fl (real_of_int m / 2) = real_of_int m / 2"
  using fl_exact [of m "- 1"] by (simp add: powr_minus field_simps)

lemma dbl_max_ge: "2 ^ 53 \<le> dbl_max"
  by (simp add: dbl_max_def)

lemma true_div_2:
  assumes "\<bar>m\<bar> \<le> 2 ^ 53"
  shows "true_div m 2 = Inr (real_of_int m / 2)"
proof -
  have "\<bar>real_of_int m / 2\<bar> \<le> 2 ^ 53" using abs_real_le [OF assms] by simp
  then have nb: "\<not> dbl_max < \<bar>real_of_int m / 2\<bar>" using dbl_max_ge by linarith
  have f: "fl (real_of_int m / 2) = real_of_int m / 2" by (rule fl_half [OF assms])
  have "true_div m 2 = (let q = fl (real_of_int m / 2)
                        in if dbl_max < \<bar>q\<bar> then Inl OverflowError else Inr q)"
    by (simp add: true_div_def)
  also have "\<dots> = Inr (real_of_int m / 2)"
    unfolding f Let_def using nb by (simp only: if_False)
  finally show ?thesis .
qed

lemma py_int_of_int: "py_int (real_of_int z) = z"
  by (simp add: py_int_def)

lemma shrink_patch_cases:
  assumes "0 \<le> p" and "p \<le> 2 ^ 53"
  shows "shrink_patch p = Inr (if even p then p div 2 else p - 1)"
proof -
  have pb: "\<bar>p - 2\<bar> \<le> 2 ^ 53" using assms by simp
  have pb': "\<bar>p\<bar> \<le> 2 ^ 53" using assms by simp
  have a: "true_div (p - 2) 2 = Inr (real_of_int (p - 2) / 2)"
    using pb by (rule true_div_2)
  have b: "true_div p 2 = Inr (real_of_int p / 2)"
    using pb' by (rule true_div_2)
  have sp: "shrink_patch p =
      (let s = fl (fl (real_of_int (p - 2) / 2 * real_of_int (p mod 2)) + real_of_int p / 2)
       in if dbl_max < \<bar>s\<bar> then Inl OverflowError else Inr (py_int s))"
    unfolding shrink_patch_def a b by (simp only: sum.case)
  define r where "r = (if even p then p div 2 else p - 1)"
  have d: "0 \<le> p div 2 \<and> p div 2 \<le> p" using assms(1) by presburger
  have rb: "\<bar>r\<bar> \<le> 2 ^ 53" using assms d unfolding r_def by auto
  have e: "real_of_int (p - 2) / 2 * real_of_int (p mod 2) + real_of_int p / 2 = real_of_int r"
  proof (cases "even p")
    case True
    then obtain k where k: "p = 2 * k" by (auto elim: evenE)
    show ?thesis using True unfolding r_def k by simp
  next
    case False
    then obtain k where k: "p = 2 * k + 1" by (auto elim: oddE)
    have m: "(2 * k + 1) mod 2 = (1::int)" by presburger
    show ?thesis using False unfolding r_def k m by (simp add: field_simps)
  qed
  have i: "fl (real_of_int (p - 2) / 2 * real_of_int (p mod 2))
             = real_of_int (p - 2) / 2 * real_of_int (p mod 2)"
  proof (cases "even p")
    case True
    then have "p mod 2 = 0" by presburger
    then show ?thesis by (simp add: fl_def)
  next
    case False
    then have "p mod 2 = 1" by presburger
    then show ?thesis using fl_half [OF pb] by simp
  qed
  have s: "fl (fl (real_of_int (p - 2) / 2 * real_of_int (p mod 2)) + real_of_int p / 2)
             = real_of_int r"
    unfolding i e using rb by (rule fl_of_int)
  have nb: "\<not> dbl_max < \<bar>real_of_int r\<bar>"
    using abs_real_le [OF rb] dbl_max_ge by linarith
  have "shrink_patch p = Inr (py_int (real_of_int r))"
    unfolding sp s Let_def using nb by (simp only: if_False)
  then show ?thesis unfolding py_int_of_int r_def .
qed

text \<open>
  Beyond 53 bits the quotients are rounded: for a patch of size \<open>2 ^ 54 + 2\<close> the quotient
  \<open>2 ^ 53 + 1\<close> lies half way between two floats and becomes \<open>2 ^ 53\<close>.
\<close>

lemma ld_eq:
  assumes "2 ^ nat e \<le> \<bar>x\<bar>" and "\<bar>x\<bar> < 2 ^ nat (e + 1)" and "0 \<le> e"
  shows "ld x = e"
proof -
  have p: "0 < \<bar>x\<bar>" using assms(1) by (smt (verit) zero_less_power)
  have "2 powr real_of_int e \<le> \<bar>x\<bar>"
    using assms(1,3) by (simp add: powr_realpow [symmetric])
  moreover have "\<bar>x\<bar> < 2 powr real_of_int (e + 1)"
    using assms(2,3) by (simp add: powr_realpow [symmetric])
  ultimately show ?thesis
    unfolding ld_def using p by (subst floor_log_eq_powr_iff) simp_all
qed

lemma fl_tie: "fl (2 ^ 53 + 1) = 2 ^ 53"
proof -
  have l: "ld (2 ^ 53 + 1) = 53" by (rule ld_eq) simp_all
  have u: "ulp (2 ^ 53 + 1) = 2" unfolding ulp_def l by simp
  have f: "\<lfloor>(2 ^ 53 + 1) / 2 :: real\<rfloor> = 2 ^ 52" by (simp add: floor_eq_iff)
  have "round_half_even ((2 ^ 53 + 1) / 2) = 2 ^ 52"
    unfolding round_half_even_def f Let_def by simp
  then show ?thesis unfolding fl_def u by simp
qed

lemma shrink_patch_rounds: "shrink_patch (2 ^ 54 + 2) = Inr (2 ^ 53)"
proof -
  have a: "true_div (2 ^ 54 + 2 - 2) 2 = Inr (2 ^ 53)"
    using fl_of_int [of "2 ^ 53"] dbl_max_ge by (simp add: true_div_def)
  have b: "true_div (2 ^ 54 + 2) 2 = Inr (2 ^ 53)"
    using fl_tie dbl_max_ge by (simp add: true_div_def)
  have c: "fl (2 ^ 53) = 2 ^ 53" using fl_of_int [of "2 ^ 53"] by simp
  have z: "fl 0 = 0" by (simp add: fl_def)
  show ?thesis unfolding shrink_patch_def a b using dbl_max_ge
    by (simp add: c [simplified] z py_int_def)
qed

text \<open>
  C6 (as stated). With the floors taken term by term, as the claim writes the
  recurrence, an odd patch size \<open>2k + 1\<close> would shrink to \<open>2k - 1\<close>. The code truncates
  once, after adding the two quotients, and a patch of size 3 becomes 2.
\<close>

theorem patch_size_recurrence_counterexample:
  "pool_step ''spatial'' \<lparr>patch_size = 3, n_side = 1, poolings = [], patch_size_list = []\<rparr>
     = Inr \<lparr>patch_size = 2, n_side = 1, poolings = [SpatialPooling (Some (2, 1))],
            patch_size_list = [3]\<rparr>
   \<and> spec_shrink_patch 3 = 1"
  by (simp add: pool_step_def step_spatial_def shrink_patch_cases spec_shrink_patch_def
        pool_kernel_def pool_stride_def)

text \<open>
  C6 (amended). In a depth transition of the pooling modes that shrink the spatial patch
  (mixed, bekkers, spatial, spatial_vec, spatial_sh), a patch size from 2 to \<open>2 ^ 53\<close>
  becomes \<open>int((size - 2) / 2 * (size mod 2) + size / 2)\<close>, the two quotients added
  before the single truncation, that is \<open>size / 2\<close> for an even size and \<open>size - 1\<close> for
  an odd size; a patch size of 1, and every patch size in the other modes, is left
  unchanged. The transition raises no error on these sizes. (Beyond \<open>2 ^ 53\<close> the
  float quotients are rounded, see \<open>shrink_patch_rounds\<close>.)
\<close>

theorem patch_size_recurrence:
  assumes "1 \<le> patch_size s" and "patch_size s \<le> 2 ^ 53"
  shows "\<exists>s'. pool_step pooling_name s = Inr s'
           \<and> patch_size s' =
               (if shrinks_patch pooling_name \<and> patch_size s \<noteq> 1
                then (if even (patch_size s) then patch_size s div 2 else patch_size s - 1)
                else patch_size s)"
proof -
  have "0 \<le> patch_size s" using assms(1) by simp
  then have c: "shrink_patch (patch_size s)
                 = Inr (if even (patch_size s) then patch_size s div 2 else patch_size s - 1)"
    using assms(2) by (rule shrink_patch_cases)
  show ?thesis
    by (simp add: pool_step_def step_mixed_def step_spherical_def step_spatial_def
          step_muller_def shrinks_patch_def c Let_def)
qed

theorem patch_size_recurrence_witness:
  "(\<exists>s'. pool_step ''mixed''
           \<lparr>patch_size = 5, n_side = 4, poolings = [], patch_size_list = []\<rparr> = Inr s'
         \<and> patch_size s' = 4)
   \<and> (\<exists>s'. pool_step ''mixed''
           \<lparr>patch_size = 1, n_side = 4, poolings = [], patch_size_list = []\<rparr> = Inr s'
         \<and> patch_size s' = 1)"
  using patch_size_recurrence [of
          "\<lparr>patch_size = 5, n_side = 4, poolings = [], patch_size_list = []\<rparr>" "''mixed''"]
        patch_size_recurrence [of
          "\<lparr>patch_size = 1, n_side = 4, poolings = [], patch_size_list = []\<rparr>" "''mixed''"]
  by (simp add: shrinks_patch_def)

text \<open>
  A run of the whole function: depth 3, patch size 5, resolution 4, mixed pooling. The two
  iterations halve the resolution and take the patch from 5 to 4 to 2; both lists are returned
  reversed.
\<close>

lemma get_healpix_poolings_example:
  "get_healpix_poolings 3 5 4 ''mixed''
     = Inr ([MixedPooling 2 2, MixedPooling 2 1], [2, 4, 5])"
  by (simp add: get_healpix_poolings_def pool_step_def step_mixed_def shrink_patch_cases
        pool_kernel_def pool_stride_def Let_def eval_nat_numeral)

section \<open>Sampling: results\<close>

lemma n_coef_even: "n_coef (2 * m) = 2 * m * m + 3 * m + 1"
  by (simp add: n_coef_def algebra_simps)

lemma n_coef_even2: "n_coef (2 * m + 2) = 2 * m * m + 7 * m + 6"
proof -
  have "(2 * m + 2) div 2 = m + 1" by simp
  then show ?thesis by (simp add: n_coef_def algebra_simps)
qed

text \<open>
  What the closed form computes: from two directions on, the chosen degree \<open>2m\<close> is the
  largest even degree whose number of coefficients is strictly below \<open>N\<close>.
\<close>

lemma sh_degree_auto_char:
  assumes "2 \<le> N"
  shows "\<exists>m\<ge>0. sh_degree_auto N = Inr (2 * m)
           \<and> n_coef (2 * m) < int N \<and> int N \<le> n_coef (2 * m + 2)"
proof -
  define r where "r = 8 * int N - 7"
  have r9: "9 \<le> r" using assms by (simp add: r_def)
  define s where "s = sqrt (real_of_int r)"
  have s3: "3 \<le> s" unfolding s_def using r9 by (intro real_le_rsqrt) simp
  have s2: "s ^ 2 = real_of_int r" unfolding s_def using r9 by simp
  define m where "m = \<lfloor>(s - 3) / 4\<rfloor>"
  have m0: "0 \<le> m" unfolding m_def using s3 by simp
  have "real_of_int m \<le> (s - 3) / 4" unfolding m_def by (rule of_int_floor_le)
  then have lo: "real_of_int (4 * m + 3) \<le> s" by simp
  have "(s - 3) / 4 < real_of_int m + 1" unfolding m_def by linarith
  then have hi: "s < real_of_int (4 * m + 7)" by simp
  have "real_of_int (4 * m + 3) ^ 2 \<le> s ^ 2"
    using lo m0 by (intro power_mono) simp_all
  then have "real_of_int ((4 * m + 3) ^ 2) \<le> real_of_int r" using s2 by simp
  then have lo': "(4 * m + 3) ^ 2 \<le> r" by (simp only: of_int_le_iff)
  have "s ^ 2 < real_of_int (4 * m + 7) ^ 2"
    using hi s3 by (intro power_strict_mono) simp_all
  then have "real_of_int r < real_of_int ((4 * m + 7) ^ 2)" using s2 by simp
  then have hi': "r < (4 * m + 7) ^ 2" by (simp only: of_int_less_iff)
  have a: "n_coef (2 * m) < int N"
    using lo' unfolding r_def n_coef_even by (simp add: power2_eq_square algebra_simps)
  have b: "int N \<le> n_coef (2 * m + 2)"
    using hi' unfolding r_def n_coef_even2 by (simp add: power2_eq_square algebra_simps)
  have "sh_degree_auto N = Inr (2 * m)"
    using r9 s3 by (simp add: sh_degree_auto_def py_int_def m_def s_def r_def)
  then show ?thesis using m0 a b by blast
qed

lemma sh_degree_auto_6: "sh_degree_auto 6 = Inr 0"
proof -
  have a: "3 \<le> sqrt 41" by (rule real_le_rsqrt) simp
  have b: "sqrt 41 < 7" by (rule real_less_lsqrt) simp_all
  have "\<lfloor>(sqrt 41 - 3) / 4\<rfloor> = 0" using a b by (simp add: floor_eq_iff)
  then show ?thesis using a by (simp add: sh_degree_auto_def py_int_def)
qed

text \<open>
  C5. The degree derived from the number of directions is meant to be the largest even
  degree \<open>L\<close> with \<open>(L + 1)(L / 2 + 1) \<le> N\<close>. For six directions degree 2 qualifies, with
  exactly six coefficients, and the closed form of the code returns degree 0: the
  constant under its square root makes the bound strict (see \<open>sh_degree_auto_char\<close>).
\<close>

theorem sh_degree_auto_six_directions:
  "sh_degree_auto 6 = Inr 0 \<and> n_coef 2 \<le> 6 \<and> n_coef 0 < n_coef 2"
  by (simp add: sh_degree_auto_6 n_coef_def)

lemma set0_zeros_row:
  "length xs = n \<Longrightarrow> set0 0 (Tensor [n] xs) (zeros [Suc 0, n]) = Tensor [Suc 0, n] xs"
  by (simp add: set0_def zeros_def)

text \<open>
  C7 (as stated). The number of rows of \<open>SH2S\<close> in the constant branch follows the
  degree: built with \<open>constant=True\<close> over six directions and degree 2, \<open>SH2S\<close> has shape
  \<open>[6, 6]\<close>, its first row filled with \<open>1 / sqrt(4 pi)\<close> and the other rows zero.
\<close>

theorem constant_shell_sampling_counterexample:
  "Sampling_init lib0 axes6 (Some 2) None True =
     Inr \<lparr>vectors = axes6,
          S2SH = Tensor [6, 1] (replicate 6 (sqrt (4 * pi) / 6)),
          SH2S = Tensor [6, 6] (replicate 6 (1 / sqrt (4 * pi)) @ replicate 30 0)\<rparr>"
  by (simp add: Sampling_init_def axes6_def sampling_constant_def set0_def zeros_def)

text \<open>
  C7 (amended). A Sampling constructed with \<open>constant=True\<close> and degree 0 over six
  direction vectors has an \<open>S2SH\<close> of shape \<open>[6, 1]\<close> with every entry
  \<open>sqrt(4 pi) / 6\<close> and an \<open>SH2S\<close> of shape \<open>[1, 6]\<close> with every entry
  \<open>1 / sqrt(4 pi)\<close>. The result does not depend on the numerical library: no
  least-squares solve takes place.
\<close>

theorem constant_shell_sampling:
  assumes "shape vecs = [6, 3]"
  shows "Sampling_init lib vecs (Some 0) max_sh_degree True =
           Inr \<lparr>vectors = vecs,
                S2SH = Tensor [6, 1] (replicate 6 (sqrt (4 * pi) / 6)),
                SH2S = Tensor [1, 6] (replicate 6 (1 / sqrt (4 * pi)))\<rparr>"
  using assms by (simp add: Sampling_init_def sampling_constant_def set0_zeros_row)

theorem constant_shell_sampling_witness:
  "Sampling_init lib0 axes6 (Some 0) None True =
     Inr \<lparr>vectors = axes6,
          S2SH = Tensor [6, 1] (replicate 6 (sqrt (4 * pi) / 6)),
          SH2S = Tensor [1, 6] (replicate 6 (1 / sqrt (4 * pi)))\<rparr>"
  using constant_shell_sampling [of axes6 lib0 None] by (simp add: axes6_def)




section \<open>Checkpoints: results\<close>

lemmas layer_defs = ChebConv_init_def SO3SE3Conv_init_def SpatialConv_init_def
  ChebConvPrecomputed_init_def SO3SE3ConvPrecomputer_init_def Linear_init_def plain_module_def
  mlp_init_def FiberBundleConvFixedGraph_init_def FiberBundleConvFixedGraphMLP_init_def
  bias_param_def checkpoint_keys_def structural_key_def endswith_def

text \<open>
  C8 (as stated). No override deletes the selection mask: the checkpoint of a mixed
  convolution with the isotropic spatial kernel keeps the buffer \<open>weight_tmp\<close>.
\<close>

theorem checkpoint_keeps_mask_counterexample:
  "map_sum id checkpoint_keys (Conv_init (\<lambda>name. ()) () ''mixed'' True True)
     = Inr [''conv.weightSph'', ''conv.weightSpa'', ''conv.bias'', ''conv.weight_tmp'']"
  by (simp add: Conv_init_def layer_defs)

text \<open>The layers each constructor can return.\<close>

lemma Conv_init_cases:
  assumes "Conv_init init buf conv_name has_bias iso_spa = Inr m"
  shows "m \<in> {Module [] [(''laplacian'', buf)] [(''conv'', c)] (Some ''laplacian'') | c.
            c \<in> {ChebConv_init init has_bias, SO3SE3Conv_init init has_bias iso_spa,
                  SpatialConv_init init has_bias iso_spa}}"
  using assms unfolding Conv_init_def by (simp split: if_splits) blast+

lemma ConvPrecomputed_init_cases:
  assumes "ConvPrecomputed_init init buf conv_name has_bias iso_spa = Inr m"
  shows "m \<in> {Module [] [] [(''conv'', c)] (Some ''laplacian'') | c.
            c \<in> {ChebConvPrecomputed_init init buf has_bias,
                  SO3SE3ConvPrecomputer_init init buf has_bias iso_spa,
                  SpatialConv_init init has_bias iso_spa, FiberBundleConvFixedGraph_init init True,
                  FiberBundleConvFixedGraphMLP_init init has_bias}}"
  using assms unfolding ConvPrecomputed_init_def by (simp split: if_splits) blast+

text \<open>The contract of the amended claim, layer by layer.\<close>

lemma keys_ChebConv:
  "m = Module [] [(''laplacian'', buf)] [(''conv'', ChebConv_init init has_bias)] (Some ''laplacian'')
   \<Longrightarrow> set (checkpoint_keys m)
           = set (param_keys m []) \<union> set (filter (\<lambda>k. \<not> structural_key k) (buffer_keys m []))
         \<and> list_all (\<lambda>k. \<not> structural_key k) (checkpoint_keys m)"
  by (cases has_bias) (simp_all add: layer_defs insert_commute)

lemma keys_SO3SE3Conv:
  "m = Module [] [(''laplacian'', buf)] [(''conv'', SO3SE3Conv_init init has_bias iso_spa)]
         (Some ''laplacian'')
   \<Longrightarrow> set (checkpoint_keys m)
           = set (param_keys m []) \<union> set (filter (\<lambda>k. \<not> structural_key k) (buffer_keys m []))
         \<and> list_all (\<lambda>k. \<not> structural_key k) (checkpoint_keys m)"
  by (cases has_bias; cases iso_spa) (simp_all add: layer_defs insert_commute)

lemma keys_SpatialConv:
  "m = Module [] bufs [(''conv'', SpatialConv_init init has_bias iso_spa)] (Some ''laplacian'')
   \<Longrightarrow> bufs = [] \<or> bufs = [(''laplacian'', buf)]
   \<Longrightarrow> set (checkpoint_keys m)
           = set (param_keys m []) \<union> set (filter (\<lambda>k. \<not> structural_key k) (buffer_keys m []))
         \<and> list_all (\<lambda>k. \<not> structural_key k) (checkpoint_keys m)"
  by (cases has_bias; cases iso_spa; erule disjE) (simp_all add: layer_defs insert_commute)

lemma keys_ChebConvPrecomputed:
  "m = Module [] [] [(''conv'', ChebConvPrecomputed_init init buf has_bias)] (Some ''laplacian'')
   \<Longrightarrow> set (checkpoint_keys m)
           = set (param_keys m []) \<union> set (filter (\<lambda>k. \<not> structural_key k) (buffer_keys m []))
         \<and> list_all (\<lambda>k. \<not> structural_key k) (checkpoint_keys m)"
  by (cases has_bias) (simp_all add: layer_defs insert_commute)

lemma keys_SO3SE3ConvPrecomputer:
  "m = Module [] [] [(''conv'', SO3SE3ConvPrecomputer_init init buf has_bias iso_spa)]
         (Some ''laplacian'')
   \<Longrightarrow> set (checkpoint_keys m)
           = set (param_keys m []) \<union> set (filter (\<lambda>k. \<not> structural_key k) (buffer_keys m []))
         \<and> list_all (\<lambda>k. \<not> structural_key k) (checkpoint_keys m)"
  by (cases has_bias; cases iso_spa) (simp_all add: layer_defs insert_commute)

lemma keys_FiberBundleConvFixedGraph:
  "m = Module [] [] [(''conv'', FiberBundleConvFixedGraph_init init True)] (Some ''laplacian'')
   \<Longrightarrow> set (checkpoint_keys m)
           = set (param_keys m []) \<union> set (filter (\<lambda>k. \<not> structural_key k) (buffer_keys m []))
         \<and> list_all (\<lambda>k. \<not> structural_key k) (checkpoint_keys m)"
  by (simp add: layer_defs insert_commute)

lemma keys_FiberBundleConvFixedGraphMLP:
  "m = Module [] [] [(''conv'', FiberBundleConvFixedGraphMLP_init init has_bias)] (Some ''laplacian'')
   \<Longrightarrow> set (checkpoint_keys m)
           = set (param_keys m []) \<union> set (filter (\<lambda>k. \<not> structural_key k) (buffer_keys m []))
         \<and> list_all (\<lambda>k. \<not> structural_key k) (checkpoint_keys m)"
  by (cases has_bias) (simp_all add: layer_defs insert_commute)

lemma Conv_init_keys:
  assumes "Conv_init init buf conv_name has_bias iso_spa = Inr m"
  shows "set (checkpoint_keys m)
           = set (param_keys m []) \<union> set (filter (\<lambda>k. \<not> structural_key k) (buffer_keys m []))
         \<and> list_all (\<lambda>k. \<not> structural_key k) (checkpoint_keys m)"
proof -
  from Conv_init_cases [OF assms] obtain c
    where m: "m = Module [] [(''laplacian'', buf)] [(''conv'', c)] (Some ''laplacian'')"
      and c: "c = ChebConv_init init has_bias \<or> c = SO3SE3Conv_init init has_bias iso_spa
              \<or> c = SpatialConv_init init has_bias iso_spa"
    by blast
  from c show ?thesis
  proof (elim disjE)
    assume "c = ChebConv_init init has_bias"
    with m show ?thesis by (intro keys_ChebConv) simp
  next
    assume "c = SO3SE3Conv_init init has_bias iso_spa"
    with m show ?thesis by (intro keys_SO3SE3Conv) simp
  next
    assume "c = SpatialConv_init init has_bias iso_spa"
    with m show ?thesis by (intro keys_SpatialConv [where bufs = "[(''laplacian'', buf)]"]) simp_all
  qed
qed

lemma ConvPrecomputed_init_keys:
  assumes "ConvPrecomputed_init init buf conv_name has_bias iso_spa = Inr m"
  shows "set (checkpoint_keys m)
           = set (param_keys m []) \<union> set (filter (\<lambda>k. \<not> structural_key k) (buffer_keys m []))
         \<and> list_all (\<lambda>k. \<not> structural_key k) (checkpoint_keys m)"
proof -
  from ConvPrecomputed_init_cases [OF assms] obtain c
    where m: "m = Module [] [] [(''conv'', c)] (Some ''laplacian'')"
      and c: "c = ChebConvPrecomputed_init init buf has_bias
              \<or> c = SO3SE3ConvPrecomputer_init init buf has_bias iso_spa
              \<or> c = SpatialConv_init init has_bias iso_spa
              \<or> c = FiberBundleConvFixedGraph_init init True
              \<or> c = FiberBundleConvFixedGraphMLP_init init has_bias"
    by blast
  from c show ?thesis
  proof (elim disjE)
    assume "c = ChebConvPrecomputed_init init buf has_bias"
    with m show ?thesis by (intro keys_ChebConvPrecomputed) simp
  next
    assume "c = SO3SE3ConvPrecomputer_init init buf has_bias iso_spa"
    with m show ?thesis by (intro keys_SO3SE3ConvPrecomputer) simp
  next
    assume "c = SpatialConv_init init has_bias iso_spa"
    with m show ?thesis by (intro keys_SpatialConv [where bufs = "[]"]) simp_all
  next
    assume "c = FiberBundleConvFixedGraph_init init True"
    with m show ?thesis by (intro keys_FiberBundleConvFixedGraph) simp
  next
    assume "c = FiberBundleConvFixedGraphMLP_init init has_bias"
    with m show ?thesis by (intro keys_FiberBundleConvFixedGraphMLP) simp
  qed
qed

text \<open>
  C8 (amended). For every convolution layer built by \<open>Conv\<close> or \<open>ConvPrecomputed\<close>, the
  state dict holds every weight and has_bias parameter and every registered buffer except
  those whose key ends with \<open>laplacian\<close> or \<open>projector\<close>: the Laplacian and the
  precomputed projector are excluded, and the isotropic selection mask \<open>weight_tmp\<close>,
  where the layer has one, is kept.
\<close>

theorem checkpoint_keys_of_layers:
  assumes "Conv_init init buf conv_name has_bias iso_spa = Inr m
           \<or> ConvPrecomputed_init init buf conv_name has_bias iso_spa = Inr m"
  shows "set (checkpoint_keys m)
           = set (param_keys m []) \<union> set (filter (\<lambda>k. \<not> structural_key k) (buffer_keys m []))
         \<and> list_all (\<lambda>k. \<not> structural_key k) (checkpoint_keys m)
         \<and> (''conv.weight_tmp'' \<in> set (buffer_keys m [])
              \<longrightarrow> ''conv.weight_tmp'' \<in> set (checkpoint_keys m))"
proof -
  have k: "set (checkpoint_keys m)
           = set (param_keys m []) \<union> set (filter (\<lambda>k. \<not> structural_key k) (buffer_keys m []))
         \<and> list_all (\<lambda>k. \<not> structural_key k) (checkpoint_keys m)"
    using assms
  proof
    assume "Conv_init init buf conv_name has_bias iso_spa = Inr m"
    then show ?thesis by (rule Conv_init_keys)
  next
    assume "ConvPrecomputed_init init buf conv_name has_bias iso_spa = Inr m"
    then show ?thesis by (rule ConvPrecomputed_init_keys)
  qed
  have w: "\<not> structural_key ''conv.weight_tmp''"
    by (simp add: structural_key_def endswith_def)
  have "''conv.weight_tmp'' \<in> set (buffer_keys m [])
          \<Longrightarrow> ''conv.weight_tmp'' \<in> set (checkpoint_keys m)"
  proof -
    assume "''conv.weight_tmp'' \<in> set (buffer_keys m [])"
    with w have "''conv.weight_tmp'' \<in> set (filter (\<lambda>k. \<not> structural_key k) (buffer_keys m []))"
      by simp
    with k show ?thesis by blast
  qed
  with k show ?thesis by (intro conjI impI) simp_all
qed

theorem checkpoint_keys_of_layers_witness:
  "set (checkpoint_keys (Module [] [] [(''conv'', SO3SE3ConvPrecomputer_init (\<lambda>name. ()) () True True)]
                           (Some ''laplacian'')))
     = {''conv.weightSph'', ''conv.weightSpa'', ''conv.bias'', ''conv.weight_tmp''}
   \<and> buffer_keys (Module [] [] [(''conv'', SO3SE3ConvPrecomputer_init (\<lambda>name. ()) () True True)]
                           (Some ''laplacian'')) [] = [''conv.projector'', ''conv.weight_tmp'']"
proof -
  have c: "ConvPrecomputed_init (\<lambda>name. ()) () ''mixed'' True True
             = Inr (Module [] [] [(''conv'', SO3SE3ConvPrecomputer_init (\<lambda>name. ()) () True True)]
                      (Some ''laplacian''))"
    by (simp add: ConvPrecomputed_init_def)
  have b: "buffer_keys (Module [] [] [(''conv'', SO3SE3ConvPrecomputer_init (\<lambda>name. ()) () True True)]
                           (Some ''laplacian'')) [] = [''conv.projector'', ''conv.weight_tmp'']"
    by (simp add: SO3SE3ConvPrecomputer_init_def)
  have p: "param_keys (Module [] [] [(''conv'', SO3SE3ConvPrecomputer_init (\<lambda>name. ()) () True True)]
                           (Some ''laplacian'')) [] = [''conv.weightSph'', ''conv.weightSpa'', ''conv.bias'']"
    by (simp add: SO3SE3ConvPrecomputer_init_def bias_param_def)
  show ?thesis
    using checkpoint_keys_of_layers [of "\<lambda>name. ()" "()" "''mixed''" True True, OF disjI2, OF c]
    unfolding b p by (simp add: structural_key_def endswith_def insert_commute)
qed

section \<open>Fusion of the spherical and spatial kernels: results\<close>

lemma concat_chunks_take:
  "n * m \<le> length xs \<Longrightarrow> concat (map (chunk m xs) [0..<n]) = take (n * m) xs"
proof (induction n)
  case 0
  then show ?case by simp
next
  case (Suc n)
  then have ih: "concat (map (chunk m xs) [0..<n]) = take (n * m) xs" by simp
  have "concat (map (chunk m xs) [0..<Suc n])
          = take (n * m) xs @ take m (drop (n * m) xs)"
    by (simp add: ih chunk_def)
  also have "\<dots> = take (n * m + m) xs" by (simp only: take_add)
  finally show ?case by (simp add: add.commute)
qed

lemma concat_chunks: "length xs = n * m \<Longrightarrow> concat (map (chunk m xs) [0..<n]) = xs"
  using concat_chunks_take [of n m xs] by simp

lemma map_div_block: "map (\<lambda>j. g (j div K)) [n * K..<n * K + K] = replicate K (g n)"
proof -
  have "map (\<lambda>j. g (j div K)) [n * K..<n * K + K] = map (\<lambda>j. g n) [n * K..<n * K + K]"
  proof (rule map_cong[OF refl])
    fix j assume "j \<in> set [n * K..<n * K + K]"
    then have "K * n \<le> j" "j < K * Suc n" by (simp_all add: mult.commute)
    then have "j div K = n" by (rule div_nat_eqI)
    then show "g (j div K) = g n" by simp
  qed
  then show ?thesis by (simp add: map_replicate_const)
qed

lemma upt_block: "[0..<Suc n * K] = [0..<n * K] @ [n * K..<n * K + K]"
proof -
  have "[0..<n * K + K] = [0..<n * K] @ [n * K..<n * K + K]"
    by (rule upt_add_eq_append) simp
  moreover have "Suc n * K = n * K + K" by simp
  ultimately show ?thesis by (simp only:)
qed

lemma interleave_blocks:
  "concat (map (\<lambda>j. g (j div K)) [0..<n * K])
     = concat (map (\<lambda>f. concat (replicate K (g f))) [0..<n])"
proof (induction n)
  case 0
  then show ?case by simp
next
  case (Suc n)
  have "concat (map (\<lambda>j. g (j div K)) [0..<Suc n * K])
      = concat (map (\<lambda>j. g (j div K)) [0..<n * K]) @ concat (replicate K (g n))"
    by (simp only: upt_block map_append concat_append map_div_block)
  then show ?case using Suc by simp
qed

lemma concat_nested_range:
  "concat (map h [0..<a * b])
     = concat (map (\<lambda>c. concat (map (\<lambda>f. h (c * b + f)) [0..<b])) [0..<a])"
proof (induction a)
  case 0
  then show ?case by simp
next
  case (Suc a)
  have "[a * b..<a * b + b] = map (\<lambda>f. a * b + f) [0..<b]"
    using map_add_upt [of "a * b" b] by (simp add: add.commute)
  then have "concat (map h [0..<Suc a * b])
      = concat (map h [0..<a * b]) @ concat (map (\<lambda>f. h (a * b + f)) [0..<b])"
    by (simp only: upt_block map_append concat_append map_map comp_def)
  then show ?case using Suc by simp
qed

lemma wSpa_layouts:
  assumes s: "shape W = [Fout, Fin, kX, kY, kZ]" and w: "wf_tensor W"
  shows "wSpa_repeat_interleave K W = wSpa_expand K W"
proof -
  let ?D = "data W"
  let ?inner = "kX * (kY * kZ)"
  let ?h = "\<lambda>x. concat (replicate K (chunk ?inner ?D x))"
  have len: "length ?D = (Fout * Fin) * ?inner" using s w by (simp add: wf_tensor_def)
  have row: "concat (map (\<lambda>j. chunk ?inner ?D (c * Fin + j div K)) [0..<Fin * K])
               = concat (map (\<lambda>f. ?h (c * Fin + f)) [0..<Fin])" for c
    by (rule interleave_blocks [of "\<lambda>f. chunk ?inner ?D (c * Fin + f)" K Fin])
  have ri: "wSpa_repeat_interleave K W
      = Tensor [Fout, Fin * K, kX, kY, kZ] (concat (map ?h [0..<Fout * Fin]))"
    unfolding wSpa_repeat_interleave_def repeat_interleave_def
    using s by (simp add: Let_def row concat_nested_range [of ?h Fout Fin])
  have ex: "wSpa_expand K W
      = Tensor [Fout, Fin * K, kX, kY, kZ] (concat (map ?h [0..<Fout * Fin]))"
  proof (cases "K = 1")
    case True
    have "concat (map ?h [0..<Fout * Fin]) = ?D"
      using True concat_chunks [OF len] by simp
    then show ?thesis
      using s True by (simp add: wSpa_expand_def expand_def unsqueeze_def flatten_def)
  next
    case False
    then show ?thesis
      using s by (simp add: wSpa_expand_def expand_def unsqueeze_def flatten_def expand_dim_def Let_def)
  qed
  show ?thesis by (simp add: ri ex)
qed

text \<open>
  C3. For a spatial weight of shape \<open>[Fout, Fin, kX, kY, kZ]\<close> and every spherical
  weight, the kernel fused with \<open>repeat_interleave\<close> is the kernel fused with
  \<open>expand\<close> and \<open>flatten\<close>; \<open>se3so3_conv\<close> and \<open>se3so3_conv_dense\<close> therefore return
  the same tensor under either setting of the flag, for every Laplacian and input, on
  every branch of the projection.
\<close>

theorem fusion_layouts_agree:
  assumes "shape W = [Fout, Fin, kX, kY, kZ]" and "wf_tensor W"
  shows "fused_kernel S W True = fused_kernel S W False
       \<and> se3so3_conv conv3d laplacian inputs S W precompute einsum True
           = se3so3_conv conv3d laplacian inputs S W precompute einsum False
       \<and> se3so3_conv_dense conv3d laplacian inputs S W precompute einsum True
           = se3so3_conv_dense conv3d laplacian inputs S W precompute einsum False"
proof -
  have k: "fused_kernel S W True = fused_kernel S W False"
    by (simp add: fused_kernel_def wSpa_layouts [OF assms])
  then show ?thesis
    by (simp add: se3so3_conv_def se3so3_conv_dense_def se3so3_conv_with_def)
qed

theorem fusion_layouts_agree_witness:
  "fused_kernel (Tensor [1, 2, 2] [1, 2, 3, 4 :: int]) (Tensor [1, 2, 1, 1, 2] [5, 6, 7, 8]) True
     = fused_kernel (Tensor [1, 2, 2] [1, 2, 3, 4]) (Tensor [1, 2, 1, 1, 2] [5, 6, 7, 8]) False
   \<and> fused_kernel (Tensor [1, 2, 2] [1, 2, 3, 4 :: int]) (Tensor [1, 2, 1, 1, 2] [5, 6, 7, 8]) False
     = Tensor [1, 4, 1, 1, 2] [5, 6, 10, 12, 21, 24, 28, 32]"
proof -
  have e: "fused_kernel (Tensor [1, 2, 2] [1, 2, 3, 4 :: int]) (Tensor [1, 2, 1, 1, 2] [5, 6, 7, 8]) False
     = Tensor [1, 4, 1, 1, 2] [5, 6, 10, 12, 21, 24, 28, 32]"
    by code_simp
  have a: "fused_kernel (Tensor [1, 2, 2] [1, 2, 3, 4 :: int]) (Tensor [1, 2, 1, 1, 2] [5, 6, 7, 8]) True
     = fused_kernel (Tensor [1, 2, 2] [1, 2, 3, 4]) (Tensor [1, 2, 1, 1, 2] [5, 6, 7, 8]) False"
    using fusion_layouts_agree [of "Tensor [1, 2, 1, 1, 2] [5, 6, 7, 8 :: int]" 1 2 1 1 2
            "Tensor [1, 2, 2] [1, 2, 3, 4]"]
    by (simp add: wf_tensor_def)
  show ?thesis by (rule conjI [OF a e])
qed

text \<open>
  C10. When \<open>kernel_sizeSpa\<close> is 1, the precomputed mixed convolution convolves with
  the spherical weight alone: two layers that differ only in \<open>weightSpa\<close> return the
  same output on every input.
\<close>

theorem spatial_weight_no_influence:
  assumes "kernel_sizeSpa self = 1"
  shows "precomputer_se3so3_conv conv3d (self\<lparr>weightSpa := w1\<rparr>) inputs
           = precomputer_se3so3_conv conv3d (self\<lparr>weightSpa := w2\<rparr>) inputs"
  using assms by (simp add: precomputer_se3so3_conv_def)

theorem spatial_weight_no_influence_witness:
  "precomputer_se3so3_conv (\<lambda>x w b. mul x w)
     \<lparr>projector = Tensor [1, 1] [1 :: int], weightSph = Tensor [1, 1, 1, 1, 1] [3],
      weightSpa = Tensor [1, 1, 1, 1, 1] [5], weight_tmp = Tensor [] [], bias = None,
      out_channels = 1, kernel_sizeSph = 1, kernel_sizeSpa = 1, isoSpa = False\<rparr>
     (Tensor [1, 1, 1, 1, 1, 1] [2])
   = precomputer_se3so3_conv (\<lambda>x w b. mul x w)
     \<lparr>projector = Tensor [1, 1] [1 :: int], weightSph = Tensor [1, 1, 1, 1, 1] [3],
      weightSpa = Tensor [1, 1, 1, 1, 1] [7], weight_tmp = Tensor [] [], bias = None,
      out_channels = 1, kernel_sizeSph = 1, kernel_sizeSpa = 1, isoSpa = False\<rparr>
     (Tensor [1, 1, 1, 1, 1, 1] [2])"
  using spatial_weight_no_influence [of
     "\<lparr>projector = Tensor [1, 1] [1 :: int], weightSph = Tensor [1, 1, 1, 1, 1] [3],
      weightSpa = Tensor [1, 1, 1, 1, 1] [5], weight_tmp = Tensor [] [], bias = None,
      out_channels = 1, kernel_sizeSph = 1, kernel_sizeSpa = 1, isoSpa = False\<rparr>"
     "\<lambda>x w b. mul x w" "Tensor [1, 1, 1, 1, 1] [5]" "Tensor [1, 1, 1, 1, 1, 1] [2]"
     "Tensor [1, 1, 1, 1, 1] [7]"]
  by simp

section \<open>Chebyshev basis: results\<close>

lemma length_concat_const:
  "(\<And>i. i < K \<Longrightarrow> length (f i) = n) \<Longrightarrow> length (concat (map f [0..<K])) = K * n"
  by (induction K) simp_all

lemma length_mm_data: "length (data (mm a b)) = (shape a ! 0) * (shape b ! 1)"
  by (simp add: mm_def Let_def length_concat_const)

lemma shape_mm: "shape (mm a b) = [shape a ! 0, shape b ! 1]"
  by (simp add: mm_def Let_def)

lemma chunk_concat:
  "(\<And>i. i < K \<Longrightarrow> length (f i) = n) \<Longrightarrow> k < K
     \<Longrightarrow> take n (drop (k * n) (concat (map f [0..<K]))) = f k"
proof (induction K)
  case 0
  then show ?case by simp
next
  case (Suc K)
  have len: "length (concat (map f [0..<K])) = K * n"
    using Suc.prems(1) by (intro length_concat_const) simp
  show ?case
  proof (cases "k < K")
    case True
    then have ih: "take n (drop (k * n) (concat (map f [0..<K]))) = f k"
      using Suc by simp
    have "Suc k * n \<le> K * n" using True by (intro mult_le_mono1) simp
    then have "n \<le> K * n - k * n" by simp
    then show ?thesis using ih len by simp
  next
    case False
    then have "k = K" using Suc.prems(2) by simp
    then show ?thesis using len Suc.prems(1) [of K] by simp
  qed
qed

lemma cheb_seq_shape2:
  assumes "shape L ! 0 = V" and "shape x = [V, D]" and "wf_tensor x"
  shows "(shape (cheb_seq L x k) = [V, D] \<and> length (data (cheb_seq L x k)) = V * D)
       \<and> (shape (cheb_seq L x (Suc k)) = [V, D] \<and> length (data (cheb_seq L x (Suc k))) = V * D)"
proof (induction k)
  case 0
  then show ?case using assms by (simp add: wf_tensor_def shape_mm length_mm_data)
next
  case (Suc k)
  then show ?case using assms
    by (simp add: sub_def scale_def shape_mm length_mm_data)
qed

lemma cheb_seq_shape:
  assumes "shape L ! 0 = V" and "shape x = [V, D]" and "wf_tensor x"
  shows "shape (cheb_seq L x k) = [V, D] \<and> length (data (cheb_seq L x k)) = V * D"
  using cheb_seq_shape2 [OF assms] by blast

lemma cheb_loop_dense_inv:
  "cheb_loop_dense n L (stack (Suc (Suc j)) V D (cheb_seq L x), cheb_seq L x j, cheb_seq L x (Suc j))
     = (stack (Suc (Suc j) + n) V D (cheb_seq L x), cheb_seq L x (j + n), cheb_seq L x (Suc j + n))"
proof (induction n arbitrary: j)
  case 0
  then show ?case by simp
next
  case (Suc n)
  have "cat0 (stack (Suc (Suc j)) V D (cheb_seq L x))
          (unsqueeze 0 (cheb_seq L x (Suc (Suc j))))
        = stack (Suc (Suc (Suc j))) V D (cheb_seq L x)"
    by (simp add: cat0_def stack_def unsqueeze_def)
  then show ?case using Suc [of "Suc j"] by (simp add: Let_def)
qed

lemma project_cheb_basis_dense_stack:
  assumes "1 \<le> K" and "shape x = [V, D]"
  shows "project_cheb_basis_dense L x K = stack K V D (cheb_seq L x)"
proof (cases "K > 1")
  case False
  then have "K = 1" using assms by simp
  then show ?thesis using assms by (simp add: project_cheb_basis_dense_def stack_def unsqueeze_def)
next
  case True
  define n where "n = K - 2"
  have K: "K = Suc (Suc n)" using True by (simp add: n_def)
  have s2: "cat0 (unsqueeze 0 x) (unsqueeze 0 (mm L x)) = stack (Suc (Suc 0)) V D (cheb_seq L x)"
    using assms by (simp add: cat0_def unsqueeze_def stack_def)
  have "project_cheb_basis_dense L x (Suc (Suc n)) = stack (Suc (Suc n)) V D (cheb_seq L x)"
    using cheb_loop_dense_inv [of n L 0 V D x] s2
    by (simp add: project_cheb_basis_dense_def Let_def)
  then show ?thesis unfolding K .
qed

lemma select0_stack:
  assumes "\<And>i. i < K \<Longrightarrow> shape (b i) = [V, D] \<and> length (data (b i)) = V * D" and "k < K"
  shows "select0 (stack K V D b) k = b k"
proof -
  have "take (V * D) (drop (k * (V * D)) (concat (map (\<lambda>k. data (b k)) [0..<K]))) = data (b k)"
    using assms by (intro chunk_concat) simp_all
  then show ?thesis using assms(1) [OF assms(2)]
    by (simp add: select0_def stack_def tensor.expand)
qed

lemma cheb_loop_dense_eq: "cheb_loop n L st = cheb_loop_dense n L st"
  by (induction n L st rule: cheb_loop.induct) (simp_all add: sparse_mm_def)

lemma project_cheb_basis_dense_eq: "project_cheb_basis L x K = project_cheb_basis_dense L x K"
  unfolding project_cheb_basis_def project_cheb_basis_dense_def sparse_mm_def
        cheb_loop_dense_eq ..

lemma cheb_basis_dense_props:
  assumes K: "1 \<le> K" and L: "shape L = [V, V]" and x: "shape x0 = [V, D]" and w: "wf_tensor x0"
  shows "shape (project_cheb_basis_dense L x0 K) = [K, V, D]"
    and "select0 (project_cheb_basis_dense L x0 K) 0 = x0"
    and "1 < K \<Longrightarrow> select0 (project_cheb_basis_dense L x0 K) 1 = mm L x0"
    and "2 \<le> k \<Longrightarrow> k < K \<Longrightarrow>
          select0 (project_cheb_basis_dense L x0 K) k
            = sub (scale 2 (mm L (select0 (project_cheb_basis_dense L x0 K) (k - 1))))
                (select0 (project_cheb_basis_dense L x0 K) (k - 2))"
proof -
  have st: "project_cheb_basis_dense L x0 K = stack K V D (cheb_seq L x0)"
    using K x by (rule project_cheb_basis_dense_stack)
  have sh: "shape (cheb_seq L x0 i) = [V, D] \<and> length (data (cheb_seq L x0 i)) = V * D" for i
    using L x w by (intro cheb_seq_shape) simp_all
  have sel: "select0 (stack K V D (cheb_seq L x0)) i = cheb_seq L x0 i" if "i < K" for i
    using sh that by (intro select0_stack) simp_all
  show "shape (project_cheb_basis_dense L x0 K) = [K, V, D]"
    by (simp add: st stack_def)
  show "select0 (project_cheb_basis_dense L x0 K) 0 = x0"
    using K by (simp add: st sel)
  show "select0 (project_cheb_basis_dense L x0 K) 1 = mm L x0" if "1 < K"
    using that by (simp add: st sel)
  show "select0 (project_cheb_basis_dense L x0 K) k
            = sub (scale 2 (mm L (select0 (project_cheb_basis_dense L x0 K) (k - 1))))
                (select0 (project_cheb_basis_dense L x0 K) (k - 2))"
    if "2 \<le> k" "k < K"
  proof -
    define j where "j = k - 2"
    have j: "k = Suc (Suc j)" using that(1) by (simp add: j_def)
    have "cheb_seq L x0 (Suc (Suc j))
            = sub (scale 2 (mm L (cheb_seq L x0 (Suc j)))) (cheb_seq L x0 j)"
      by simp
    then have "cheb_seq L x0 k
            = sub (scale 2 (mm L (cheb_seq L x0 (Suc j)))) (cheb_seq L x0 j)"
      by (simp only: j)
    moreover have "k - 1 = Suc j" "k - 2 = j" using that(1) by (simp_all add: j_def)
    moreover have "j < K" "Suc j < K" using that by (simp_all add: j_def)
    ultimately show ?thesis using that(2) by (simp add: st sel)
  qed
qed

text \<open>
  C1. For every Laplacian \<open>L\<close> of shape \<open>[V, V]\<close>, every signal \<open>x0\<close> of shape
  \<open>[V, D]\<close> and every \<open>K \<ge> 1\<close>, the basis returned by \<open>project_cheb_basis\<close>, and the
  one returned by \<open>project_cheb_basis_dense\<close>, has shape \<open>[K, V, D]\<close> and satisfies
  \<open>basis[0] = x0\<close>, \<open>basis[1] = L x0\<close> when \<open>K > 1\<close>, and
  \<open>basis[k] = 2 L basis[k-1] - basis[k-2]\<close> for \<open>2 \<le> k < K\<close>. The equalities hold
  between the stored slices and the result of the same tensor operations applied to
  the stored slices.
\<close>

theorem chebyshev_recurrence:
  assumes "1 \<le> K" and "shape L = [V, V]" and "shape x0 = [V, D]" and "wf_tensor x0"
  shows "(shape (project_cheb_basis L x0 K) = [K, V, D]
          \<and> select0 (project_cheb_basis L x0 K) 0 = x0
          \<and> (1 < K \<longrightarrow> select0 (project_cheb_basis L x0 K) 1 = sparse_mm L x0)
          \<and> (\<forall>k. 2 \<le> k \<and> k < K \<longrightarrow>
                select0 (project_cheb_basis L x0 K) k
                  = sub (scale 2 (sparse_mm L (select0 (project_cheb_basis L x0 K) (k - 1))))
                      (select0 (project_cheb_basis L x0 K) (k - 2))))
       \<and> (shape (project_cheb_basis_dense L x0 K) = [K, V, D]
          \<and> select0 (project_cheb_basis_dense L x0 K) 0 = x0
          \<and> (1 < K \<longrightarrow> select0 (project_cheb_basis_dense L x0 K) 1 = mm L x0)
          \<and> (\<forall>k. 2 \<le> k \<and> k < K \<longrightarrow>
                select0 (project_cheb_basis_dense L x0 K) k
                  = sub (scale 2 (mm L (select0 (project_cheb_basis_dense L x0 K) (k - 1))))
                      (select0 (project_cheb_basis_dense L x0 K) (k - 2))))"
  using cheb_basis_dense_props [OF assms]
  by (simp add: project_cheb_basis_dense_eq sparse_mm_def)

theorem chebyshev_recurrence_witness:
  "project_cheb_basis (Tensor [2, 2] [0, 1, 2, 3 :: int]) (Tensor [2, 1] [1, 1]) 4
     = Tensor [4, 2, 1] [1, 1, 1, 5, 9, 33, 65, 229]
   \<and> select0 (project_cheb_basis (Tensor [2, 2] [0, 1, 2, 3 :: int]) (Tensor [2, 1] [1, 1]) 4) 3
     = sub (scale 2 (sparse_mm (Tensor [2, 2] [0, 1, 2, 3])
              (select0 (project_cheb_basis (Tensor [2, 2] [0, 1, 2, 3]) (Tensor [2, 1] [1, 1]) 4) 2)))
         (select0 (project_cheb_basis (Tensor [2, 2] [0, 1, 2, 3]) (Tensor [2, 1] [1, 1]) 4) 1)"
proof -
  have e: "project_cheb_basis (Tensor [2, 2] [0, 1, 2, 3 :: int]) (Tensor [2, 1] [1, 1]) 4
     = Tensor [4, 2, 1] [1, 1, 1, 5, 9, 33, 65, 229]"
    by code_simp
  have r: "select0 (project_cheb_basis (Tensor [2, 2] [0, 1, 2, 3 :: int]) (Tensor [2, 1] [1, 1]) 4) 3
     = sub (scale 2 (sparse_mm (Tensor [2, 2] [0, 1, 2, 3])
              (select0 (project_cheb_basis (Tensor [2, 2] [0, 1, 2, 3]) (Tensor [2, 1] [1, 1]) 4) 2)))
         (select0 (project_cheb_basis (Tensor [2, 2] [0, 1, 2, 3]) (Tensor [2, 1] [1, 1]) 4) 1)"
    using chebyshev_recurrence [of 4 "Tensor [2, 2] [0, 1, 2, 3 :: int]" 2 "Tensor [2, 1] [1, 1]" 1]
    by (simp add: wf_tensor_def)
  show ?thesis by (rule conjI [OF e r])
qed

section \<open>Isotropic selection mask: results\<close>

lemma ravel_lt:
  "list_all2 (\<lambda>m d. m < d) ms s \<Longrightarrow> s \<noteq> [] \<Longrightarrow> ravel s ms < prod_list s"
proof (induction s arbitrary: ms)
  case Nil
  then show ?case by simp
next
  case (Cons d ds)
  then obtain m ms' where ms: "ms = m # ms'" and m: "m < d" and r: "list_all2 (\<lambda>m d. m < d) ms' ds"
    by (auto simp: list_all2_Cons2)
  show ?case
  proof (cases "ds = []")
    case True
    then show ?thesis using ms m r by simp
  next
    case False
    then have lt: "ravel ds ms' < prod_list ds" using Cons.IH r by simp
    have "m * prod_list ds + ravel ds ms' < m * prod_list ds + prod_list ds" using lt by simp
    also have "\<dots> = Suc m * prod_list ds" by simp
    also have "\<dots> \<le> d * prod_list ds" using m by (intro mult_le_mono1) simp
    finally show ?thesis using ms by simp
  qed
qed

lemma unravel_ravel:
  "list_all2 (\<lambda>m d. m < d) ms s \<Longrightarrow> unravel s (ravel s ms) = ms"
proof (induction s arbitrary: ms)
  case Nil
  then show ?case by simp
next
  case (Cons d ds)
  then obtain m ms' where ms: "ms = m # ms'" and m: "m < d" and r: "list_all2 (\<lambda>m d. m < d) ms' ds"
    by (auto simp: list_all2_Cons2)
  show ?case
  proof (cases "ds = []")
    case True
    then show ?thesis using ms r by simp
  next
    case False
    then have lt: "ravel ds ms' < prod_list ds" using r by (intro ravel_lt)
    then show ?thesis using ms Cons.IH [OF r] by simp
  qed
qed

lemma ravel_snoc:
  "length ms = length s \<Longrightarrow> ravel (s @ [R]) (ms @ [b]) = ravel s ms * R + b"
proof (induction s arbitrary: ms)
  case Nil
  then show ?case by simp
next
  case (Cons d ds)
  then obtain m ms' where ms: "ms = m # ms'" and l: "length ms' = length ds"
    by (cases ms) auto
  show ?case using Cons.IH [OF l] ms by (simp add: algebra_simps)
qed

lemma length_unravel: "length (unravel s i) = length s"
  by (induction s arbitrary: i) simp_all

lemma index_of_nth:
  "v \<in> set xs \<Longrightarrow> index_of xs v < length xs \<and> xs ! index_of xs v = v"
  by (induction xs) auto

lemma sum_list_one_hot:
  "b < R \<Longrightarrow> sum_list ((replicate R (0::'a::comm_ring_1))[b := 1]) = 1"
proof (induction R arbitrary: b)
  case 0
  then show ?case by simp
next
  case (Suc R)
  then show ?case by (cases b) (simp_all add: sum_list_replicate)
qed

lemma nth_concat_const:
  assumes "\<And>i. i < K \<Longrightarrow> length (f i) = n" and "k < K" and "r < n"
  shows "concat (map f [0..<K]) ! (k * n + r) = f k ! r"
proof -
  have "take n (drop (k * n) (concat (map f [0..<K]))) = f k"
    using assms(1,2) by (rule chunk_concat)
  then have "f k ! r = take n (drop (k * n) (concat (map f [0..<K]))) ! r" by simp
  also have "\<dots> = drop (k * n) (concat (map f [0..<K])) ! r" using assms(3) by simp
  also have "\<dots> = concat (map f [0..<K]) ! (k * n + r)"
  proof -
    have "length (concat (map f [0..<K])) = K * n"
      using assms(1) by (rule length_concat_const)
    moreover have "Suc k * n \<le> K * n" using assms(2) by (intro mult_le_mono1) simp
    ultimately have "k * n + r < length (concat (map f [0..<K]))" using assms(3) by simp
    then show ?thesis by simp
  qed
  finally show ?thesis by simp
qed

lemma length_distance_flat: "length (distance_flat sz) = sz * (sz * sz)"
  by (simp add: distance_flat_def length_concat_const)

lemma distance_flat_nth:
  assumes "x < sz" "y < sz" "z < sz"
  shows "distance_flat sz ! ravel [sz, sz, sz] [x, y, z] = qdist sz x y z"
proof -
  let ?row = "\<lambda>a b. map (\<lambda>c. qdist sz a b c) [0..<sz]"
  let ?plane = "\<lambda>a. concat (map (?row a) [0..<sz])"
  have lp: "length (?plane a) = sz * sz" for a
    by (intro length_concat_const) simp
  have yz: "y * sz + z < sz * sz"
  proof -
    have "y * sz + z < y * sz + sz" using assms(3) by simp
    also have "\<dots> = Suc y * sz" by simp
    also have "\<dots> \<le> sz * sz" using assms(2) by (intro mult_le_mono1) simp
    finally show ?thesis .
  qed
  have "distance_flat sz ! (x * (sz * sz) + (y * sz + z)) = ?plane x ! (y * sz + z)"
    unfolding distance_flat_def using lp assms(1) yz by (intro nth_concat_const) simp_all
  also have "\<dots> = ?row x y ! z"
    using assms by (intro nth_concat_const) simp_all
  also have "\<dots> = qdist sz x y z" using assms(3) by simp
  finally show ?thesis by (simp add: algebra_simps)
qed

lemma mask_assign_shape:
  "shape (mask_assign sz ind i w) = shape w
   \<and> length (data (mask_assign sz ind i w)) = length (data w)"
  by (simp add: mask_assign_def)

lemma fold_mask_shape:
  "shape (fold (mask_assign sz ind) js w) = shape w
   \<and> length (data (fold (mask_assign sz ind) js w)) = length (data w)"
  by (induction js arbitrary: w) (simp_all add: mask_assign_shape)

lemma mask_assign_nth:
  assumes "idx < length (data w)" and "unravel (shape w) idx = [out, inp, x, y, z, b]"
  shows "data (mask_assign sz ind i w) ! idx
           = (if b = i \<and> ind ! ravel [sz, sz, sz] [x, y, z] = i then 1 else data w ! idx)"
  using assms by (simp add: mask_assign_def)

lemma fold_mask_nth:
  assumes "idx < length (data w)" and "unravel (shape w) idx = [out, inp, x, y, z, b]"
  shows "data (fold (mask_assign sz ind) js w) ! idx
           = (if b \<in> set js \<and> ind ! ravel [sz, sz, sz] [x, y, z] = b then 1 else data w ! idx)"
  using assms
proof (induction js arbitrary: w)
  case Nil
  then show ?case by simp
next
  case (Cons i js)
  let ?w = "mask_assign sz ind i w"
  have a: "idx < length (data ?w)" using Cons.prems(1) by (simp add: mask_assign_shape)
  have b: "unravel (shape ?w) idx = [out, inp, x, y, z, b]"
    using Cons.prems(2) by (simp add: mask_assign_shape)
  have "data (fold (mask_assign sz ind) js ?w) ! idx
          = (if b \<in> set js \<and> ind ! ravel [sz, sz, sz] [x, y, z] = b then 1 else data ?w ! idx)"
    using a b by (rule Cons.IH)
  then show ?case using mask_assign_nth [OF Cons.prems, of sz ind i] by auto
qed

lemma chunk_nth_map:
  "Suc c * n \<le> length xs \<Longrightarrow> chunk n xs c = map (\<lambda>b. xs ! (c * n + b)) [0..<n]"
  by (rule nth_equalityI) (simp_all add: chunk_def)

lemma one_hot_map:
  "b < R \<Longrightarrow> map (\<lambda>b'. if b' = b then 1 else 0) [0..<R] = (replicate R (0::'a::comm_ring_1))[b := 1]"
  by (rule nth_equalityI) (auto simp: nth_list_update)

lemma get_index_fst:
  "fst (get_index Fout Fin sz)
     = fold (mask_assign sz (snd (np_unique (distance_flat sz))))
         [0..<length (unique_distances sz)]
         (zeros [Fout, Fin, sz, sz, sz, length (unique_distances sz)])"
  by (simp add: get_index_def unique_distances_def Let_def split: prod.splits)

lemma bucket_props:
  assumes "x < sz" "y < sz" "z < sz"
  shows "bucket sz x y z < length (unique_distances sz)"
    and "unique_distances sz ! bucket sz x y z = qdist sz x y z"
proof -
  let ?p = "ravel [sz, sz, sz] [x, y, z]"
  have "list_all2 (\<lambda>m d. m < d) [x, y, z] [sz, sz, sz]" using assms by simp
  then have "?p < prod_list [sz, sz, sz]" by (rule ravel_lt) simp
  then have p: "?p < length (distance_flat sz)" by (simp add: length_distance_flat)
  have b: "bucket sz x y z = index_of (unique_distances sz) (distance_flat sz ! ?p)"
    using p by (simp add: bucket_def unique_distances_def np_unique_def Let_def)
  have "distance_flat sz ! ?p \<in> set (unique_distances sz)"
    using p by (simp add: unique_distances_def np_unique_def Let_def)
  then have "index_of (unique_distances sz) (distance_flat sz ! ?p) < length (unique_distances sz)
     \<and> unique_distances sz ! index_of (unique_distances sz) (distance_flat sz ! ?p)
         = distance_flat sz ! ?p"
    by (rule index_of_nth)
  then show "bucket sz x y z < length (unique_distances sz)"
    and "unique_distances sz ! bucket sz x y z = qdist sz x y z"
    using b distance_flat_nth [OF assms] by simp_all
qed

lemma mask_entry:
  assumes "out < Fout" "inp < Fin" "x < sz" "y < sz" "z < sz" "b < length (unique_distances sz)"
  shows "data (fst (get_index Fout Fin sz) :: 'a::comm_ring_1 tensor)
           ! (ravel [Fout, Fin, sz, sz, sz] [out, inp, x, y, z] * length (unique_distances sz) + b)
         = (if b = bucket sz x y z then 1 else 0)"
proof -
  let ?R = "length (unique_distances sz)"
  let ?s = "[Fout, Fin, sz, sz, sz, ?R]"
  let ?m = "[out, inp, x, y, z, b]"
  let ?w = "zeros ?s :: 'a tensor"
  have all: "list_all2 (\<lambda>m d. m < d) ?m ?s" using assms by simp
  have idx: "ravel ?s ?m = ravel [Fout, Fin, sz, sz, sz] [out, inp, x, y, z] * ?R + b"
    using ravel_snoc [of "[out, inp, x, y, z]" "[Fout, Fin, sz, sz, sz]" ?R b] by simp
  have lt: "ravel ?s ?m < length (data ?w)"
    using ravel_lt [OF all] by (simp add: zeros_def)
  have un: "unravel (shape ?w) (ravel ?s ?m) = ?m"
    using unravel_ravel [OF all] by (simp add: zeros_def)
  have "data (fold (mask_assign sz (snd (np_unique (distance_flat sz)))) [0..<?R] ?w) ! ravel ?s ?m
        = (if b \<in> set [0..<?R]
              \<and> snd (np_unique (distance_flat sz)) ! ravel [sz, sz, sz] [x, y, z] = b
           then 1 else data ?w ! ravel ?s ?m)"
    using lt un by (rule fold_mask_nth)
  moreover have "data ?w ! ravel ?s ?m = 0" using lt by (simp add: zeros_def)
  ultimately show ?thesis
    using assms(6) unfolding get_index_fst idx bucket_def by auto
qed

text \<open>
  C4. For every kernel size and every position (out-channel, in-channel, x, y, z) of
  the mask built by \<open>get_index\<close>, the entries along the bucket axis are zero except
  for a single one (so their sum is 1), and the bucket that holds the one is the
  position of the offset's distance from the kernel centre in the sorted list of the
  distinct distances. Distances are compared through four times their squares.
\<close>

theorem isotropic_mask_one_hot:
  assumes "out < Fout" "inp < Fin" "x < sz" "y < sz" "z < sz"
  shows "shape (fst (get_index Fout Fin sz) :: 'a::comm_ring_1 tensor)
           = [Fout, Fin, sz, sz, sz, length (unique_distances sz)]
       \<and> chunk (length (unique_distances sz))
            (data (fst (get_index Fout Fin sz) :: 'a tensor))
            (ravel [Fout, Fin, sz, sz, sz] [out, inp, x, y, z])
           = (replicate (length (unique_distances sz)) 0)[bucket sz x y z := 1]
       \<and> data (sum_last (fst (get_index Fout Fin sz) :: 'a tensor))
            ! ravel [Fout, Fin, sz, sz, sz] [out, inp, x, y, z] = 1
       \<and> bucket sz x y z < length (unique_distances sz)
       \<and> unique_distances sz ! bucket sz x y z = qdist sz x y z
       \<and> sorted (unique_distances sz) \<and> distinct (unique_distances sz)"
proof -
  let ?R = "length (unique_distances sz)"
  let ?W = "fst (get_index Fout Fin sz) :: 'a tensor"
  let ?c = "ravel [Fout, Fin, sz, sz, sz] [out, inp, x, y, z]"
  have sh: "shape ?W = [Fout, Fin, sz, sz, sz, ?R]"
    and len: "length (data ?W) = Fout * (Fin * (sz * (sz * (sz * ?R))))"
    unfolding get_index_fst by (simp_all add: fold_mask_shape zeros_def)
  have "list_all2 (\<lambda>m d. m < d) [out, inp, x, y, z] [Fout, Fin, sz, sz, sz]"
    using assms by simp
  then have c: "?c < prod_list [Fout, Fin, sz, sz, sz]" by (rule ravel_lt) simp
  then have "Suc ?c \<le> Fout * (Fin * (sz * (sz * sz)))" by simp
  then have "Suc ?c * ?R \<le> (Fout * (Fin * (sz * (sz * sz)))) * ?R"
    by (rule mult_le_mono1)
  then have fit: "Suc ?c * ?R \<le> length (data ?W)" by (simp add: len mult.assoc)
  have bk: "bucket sz x y z < ?R" and ud: "unique_distances sz ! bucket sz x y z = qdist sz x y z"
    using bucket_props [OF assms(3-5)] by simp_all
  have "chunk ?R (data ?W) ?c = map (\<lambda>b. data ?W ! (?c * ?R + b)) [0..<?R]"
    using fit by (rule chunk_nth_map)
  also have "\<dots> = map (\<lambda>b. if b = bucket sz x y z then 1 else 0) [0..<?R]"
  proof (rule map_cong [OF refl])
    fix b assume "b \<in> set [0..<?R]"
    then have "b < ?R" by simp
    then show "data ?W ! (?c * ?R + b) = (if b = bucket sz x y z then 1 else 0)"
      by (rule mask_entry [OF assms])
  qed
  also have "\<dots> = (replicate ?R 0)[bucket sz x y z := 1]"
    using bk by (rule one_hot_map)
  finally have ch: "chunk ?R (data ?W) ?c = (replicate ?R 0)[bucket sz x y z := 1]" .
  have "data (sum_last ?W) ! ?c = sum_list (chunk ?R (data ?W) ?c)"
    using c by (simp add: sum_last_def sh Let_def)
  also have "\<dots> = sum_list ((replicate ?R 0)[bucket sz x y z := 1])" by (simp only: ch)
  also have "\<dots> = 1" using bk by (rule sum_list_one_hot)
  finally have sm: "data (sum_last ?W) ! ?c = 1" .
  have so: "sorted (unique_distances sz) \<and> distinct (unique_distances sz)"
    by (simp add: unique_distances_def np_unique_def Let_def)
  show ?thesis using sh ch sm bk ud so by blast
qed

theorem isotropic_mask_one_hot_witness:
  "unique_distances 3 = [0, 4, 8, 12] \<and> bucket 3 0 1 1 = 1 \<and> qdist 3 0 1 1 = 4
   \<and> chunk 4 (data (fst (get_index 1 1 3) :: int tensor)) (ravel [1, 1, 3, 3, 3] [0, 0, 0, 1, 1])
       = [0, 1, 0, 0]
   \<and> data (sum_last (fst (get_index 1 1 3) :: int tensor)) ! ravel [1, 1, 3, 3, 3] [0, 0, 0, 1, 1]
       = 1"
proof -
  have u: "unique_distances 3 = [0, 4, 8, 12]" by code_simp
  have b: "bucket 3 0 1 1 = 1" by code_simp
  have q: "qdist 3 0 1 1 = 4" by code_simp
  have "chunk (length (unique_distances 3)) (data (fst (get_index 1 1 3) :: int tensor))
          (ravel [1, 1, 3, 3, 3] [0, 0, 0, 1, 1])
          = (replicate (length (unique_distances 3)) 0)[bucket 3 0 1 1 := 1]
       \<and> data (sum_last (fst (get_index 1 1 3) :: int tensor))
            ! ravel [1, 1, 3, 3, 3] [0, 0, 0, 1, 1] = 1"
    using isotropic_mask_one_hot [of 0 1 0 1 0 3 1 1, where 'a = int] by simp
  then have "chunk 4 (data (fst (get_index 1 1 3) :: int tensor))
          (ravel [1, 1, 3, 3, 3] [0, 0, 0, 1, 1]) = [0, 1, 0, 0]
       \<and> data (sum_last (fst (get_index 1 1 3) :: int tensor))
            ! ravel [1, 1, 3, 3, 3] [0, 0, 0, 1, 1] = 1"
    unfolding u b by (simp add: eval_nat_numeral)
  then show ?thesis using u b q by blast
qed

section \<open>Precomputed projector: results\<close>

lemma length_tab: "length (tab n p f) = n * p"
  by (simp add: tab_def length_concat_const)

lemma nth_tab: "i < n \<Longrightarrow> j < p \<Longrightarrow> tab n p f ! (i * p + j) = f i j"
  unfolding tab_def by (subst nth_concat_const [where n = p]) simp_all

lemma tab_cong:
  assumes "\<And>i j. i < n \<Longrightarrow> j < p \<Longrightarrow> f i j = g i j"
  shows "tab n p f = tab n p g"
proof -
  have "map (\<lambda>i. map (f i) [0..<p]) [0..<n] = map (\<lambda>i. map (g i) [0..<p]) [0..<n]"
  proof (rule map_cong [OF refl])
    fix i assume "i \<in> set [0..<n]"
    then have i: "i < n" by simp
    show "map (f i) [0..<p] = map (g i) [0..<p]"
    proof (rule map_cong [OF refl])
      fix j assume "j \<in> set [0..<p]"
      then have "j < p" by simp
      then show "f i j = g i j" using i by (rule assms [rotated])
    qed
  qed
  then show ?thesis by (simp only: tab_def)
qed

lemma tab_of_data:
  assumes "length xs = n * p"
  shows "xs = tab n p (\<lambda>i j. xs ! (i * p + j))"
proof -
  have "chunk p xs i = map (\<lambda>j. xs ! (i * p + j)) [0..<p]" if "i < n" for i
  proof (rule chunk_nth_map)
    have "Suc i * p \<le> n * p" using that by (intro mult_le_mono1) simp
    then show "Suc i * p \<le> length xs" using assms by simp
  qed
  then have "map (chunk p xs) [0..<n] = map (\<lambda>i. map (\<lambda>j. xs ! (i * p + j)) [0..<p]) [0..<n]"
    by (intro map_cong) simp_all
  then have "concat (map (chunk p xs) [0..<n]) = tab n p (\<lambda>i j. xs ! (i * p + j))"
    by (simp only: tab_def)
  then show ?thesis using concat_chunks [OF assms] by simp
qed

lemma tab_eqI:
  assumes "length xs = n * p" and "\<And>i j. i < n \<Longrightarrow> j < p \<Longrightarrow> xs ! (i * p + j) = f i j"
  shows "xs = tab n p f"
proof -
  have "xs = tab n p (\<lambda>i j. xs ! (i * p + j))" using assms(1) by (rule tab_of_data)
  also have "\<dots> = tab n p f" using assms(2) by (rule tab_cong)
  finally show ?thesis .
qed

lemma map_tab: "map h (tab n p f) = tab n p (\<lambda>i j. h (f i j))"
  by (simp add: tab_def map_concat comp_def)

lemma map2_tab:
  "map2 h (tab n p f) (tab n p g) = tab n p (\<lambda>i j. h (f i j) (g i j))"
proof (rule tab_eqI)
  show "length (map2 h (tab n p f) (tab n p g)) = n * p" by (simp add: length_tab)
next
  fix i j assume ij: "i < n" "j < p"
  have "i * p + j < Suc i * p" using ij by simp
  also have "\<dots> \<le> n * p" using ij by (intro mult_le_mono1) simp
  finally have "i * p + j < n * p" .
  then show "map2 h (tab n p f) (tab n p g) ! (i * p + j) = h (f i j) (g i j)"
    using ij by (simp add: length_tab nth_tab)
qed

lemma mm_tab:
  "mm (Tensor [n, m] (tab n m f)) (Tensor [m, p] (tab m p g))
     = Tensor [n, p] (tab n p (fmul m f g))"
proof -
  have "(\<Sum>k\<leftarrow>[0..<m]. tab n m f ! (i * m + k) * tab m p g ! (k * p + j)) = fmul m f g i j"
    if "i < n" "j < p" for i j
    unfolding fmul_def using that
    by (intro arg_cong [where f = sum_list] map_cong) (simp_all add: nth_tab)
  then have "tab n p (\<lambda>i j. \<Sum>k\<leftarrow>[0..<m]. tab n m f ! (i * m + k) * tab m p g ! (k * p + j))
           = tab n p (fmul m f g)"
    by (rule tab_cong)
  then show ?thesis by (simp add: mm_def tab_def)
qed

lemma scale_tab: "scale c (Tensor s (tab n p f)) = Tensor s (tab n p (\<lambda>i j. c * f i j))"
  by (simp add: scale_def map_tab)

lemma sub_tab:
  "sub (Tensor s (tab n p f)) (Tensor s' (tab n p g)) = Tensor s (tab n p (\<lambda>i j. f i j - g i j))"
  by (simp add: sub_def map2_tab)

lemma fmul_sum: "fmul V A X i j = (\<Sum>k = 0..<V. A i k * X k j)"
  by (simp add: fmul_def interv_sum_list_conv_sum_set_nat)

lemma fmul_assoc: "fmul V (fmul V A B) C i j = fmul V A (fmul V B C) i j"
proof -
  have "fmul V (fmul V A B) C i j = (\<Sum>k = 0..<V. \<Sum>l = 0..<V. A i l * B l k * C k j)"
    by (simp add: fmul_sum sum_distrib_right)
  also have "\<dots> = (\<Sum>l = 0..<V. \<Sum>k = 0..<V. A i l * B l k * C k j)"
    by (rule sum.swap)
  also have "\<dots> = fmul V A (fmul V B C) i j"
    by (simp add: fmul_sum sum_distrib_left mult.assoc)
  finally show ?thesis .
qed

lemma fmul_cong:
  assumes "\<And>k. k < V \<Longrightarrow> A i k = A' i k" and "\<And>k. k < V \<Longrightarrow> X k j = X' k j"
  shows "fmul V A X i j = fmul V A' X' i j"
  unfolding fmul_sum using assms by (intro sum.cong) simp_all

lemma fmul_transpose:
  assumes "\<And>u. u < V \<Longrightarrow> A j u = A' u j" and "\<And>u. u < V \<Longrightarrow> X u i = X' i u"
  shows "fmul V A X j i = fmul V X' A' i j"
  unfolding fmul_sum using assms by (intro sum.cong) (simp_all add: mult.commute)

lemma fmul_delta_right: "j < V \<Longrightarrow> fmul V A delta i j = A i j"
proof -
  assume j: "j < V"
  have "fmul V A delta i j = (\<Sum>k = 0..<V. if k = j then A i k else 0)"
    unfolding fmul_sum by (intro sum.cong) simp_all
  also have "\<dots> = A i j" using j by (simp add: sum.delta)
  finally show ?thesis .
qed

lemma fmul_delta_left: "i < V \<Longrightarrow> fmul V delta X i j = X i j"
proof -
  assume i: "i < V"
  have "fmul V delta X i j = (\<Sum>k = 0..<V. if k = i then X k j else 0)"
    unfolding fmul_sum by (intro sum.cong) auto
  also have "\<dots> = X i j" using i by (simp add: sum.delta)
  finally show ?thesis .
qed

lemma fmul_step_right:
  "fmul V A (\<lambda>i j. 2 * X i j - Y i j) i j = 2 * fmul V A X i j - fmul V A Y i j"
  by (simp add: fmul_sum sum_subtractf sum_distrib_left algebra_simps)

lemma fmul_step_left:
  "fmul V (\<lambda>i j. 2 * X i j - Y i j) C i j = 2 * fmul V X C i j - fmul V Y C i j"
  by (simp add: fmul_sum sum_subtractf sum_distrib_left algebra_simps)

lemma cheb_commute2:
  "(\<forall>i<V. \<forall>j<V. fmul V A (cheb_fun V A delta k) i j = fmul V (cheb_fun V A delta k) A i j)
   \<and> (\<forall>i<V. \<forall>j<V. fmul V A (cheb_fun V A delta (Suc k)) i j
                      = fmul V (cheb_fun V A delta (Suc k)) A i j)"
proof (induction k)
  case 0
  have a: "fmul V A delta i j = fmul V delta A i j" if "i < V" "j < V" for i j
    using that by (simp add: fmul_delta_right fmul_delta_left)
  have "fmul V A (fmul V A delta) i j = fmul V (fmul V A delta) A i j" if "i < V" "j < V" for i j
  proof -
    have "fmul V (fmul V A delta) A i j = fmul V A (fmul V delta A) i j" by (rule fmul_assoc)
    also have "\<dots> = fmul V A (fmul V A delta) i j"
    proof (rule fmul_cong)
      show "A i k = A i k" for k by simp
      show "fmul V delta A k j = fmul V A delta k j" if "k < V" for k
        using that \<open>j < V\<close> by (simp add: fmul_delta_right fmul_delta_left)
    qed
    finally show ?thesis by simp
  qed
  then show ?case using a by simp
next
  case (Suc k)
  let ?T = "cheb_fun V A delta"
  have "fmul V A (?T (Suc (Suc k))) i j = fmul V (?T (Suc (Suc k))) A i j"
    if ij: "i < V" "j < V" for i j
  proof -
    have "fmul V A (?T (Suc (Suc k))) i j
            = 2 * fmul V A (fmul V A (?T (Suc k))) i j - fmul V A (?T k) i j"
      by (simp add: fmul_step_right)
    also have "fmul V A (fmul V A (?T (Suc k))) i j = fmul V A (fmul V (?T (Suc k)) A) i j"
    proof (rule fmul_cong)
      show "A i u = A i u" for u by simp
      show "fmul V A (?T (Suc k)) u j = fmul V (?T (Suc k)) A u j" if "u < V" for u
        using Suc that ij by simp
    qed
    also have "\<dots> = fmul V (fmul V A (?T (Suc k))) A i j" by (rule fmul_assoc [symmetric])
    also have "fmul V A (?T k) i j = fmul V (?T k) A i j" using Suc ij by simp
    finally show ?thesis by (simp add: fmul_step_left)
  qed
  then show ?case using Suc by simp
qed

lemma cheb_commute:
  "i < V \<Longrightarrow> j < V \<Longrightarrow>
     fmul V A (cheb_fun V A delta k) i j = fmul V (cheb_fun V A delta k) A i j"
  using cheb_commute2 [of V A k] by simp

lemma cheb_symmetric2:
  assumes sym: "\<And>i j. i < V \<Longrightarrow> j < V \<Longrightarrow> A i j = A j i"
  shows "(\<forall>i<V. \<forall>j<V. cheb_fun V A delta k i j = cheb_fun V A delta k j i)
       \<and> (\<forall>i<V. \<forall>j<V. cheb_fun V A delta (Suc k) i j = cheb_fun V A delta (Suc k) j i)"
proof (induction k)
  case 0
  then show ?case using sym by (auto simp: fmul_delta_right)
next
  case (Suc k)
  let ?T = "cheb_fun V A delta"
  have "?T (Suc (Suc k)) i j = ?T (Suc (Suc k)) j i" if ij: "i < V" "j < V" for i j
  proof -
    have "fmul V A (?T (Suc k)) j i = fmul V (?T (Suc k)) A i j"
    proof (rule fmul_transpose)
      show "A j u = A u j" if "u < V" for u using sym that ij by simp
      show "?T (Suc k) u i = ?T (Suc k) i u" if "u < V" for u using Suc that ij by simp
    qed
    also have "\<dots> = fmul V A (?T (Suc k)) i j"
      using ij by (rule cheb_commute [symmetric])
    finally have "fmul V A (?T (Suc k)) j i = fmul V A (?T (Suc k)) i j" .
    moreover have "?T k i j = ?T k j i" using Suc ij by simp
    ultimately show ?thesis by simp
  qed
  then show ?case using Suc by simp
qed

lemma cheb_apply2:
  "(\<forall>i<V. \<forall>j. fmul V (cheb_fun V A delta k) X i j = cheb_fun V A X k i j)
   \<and> (\<forall>i<V. \<forall>j. fmul V (cheb_fun V A delta (Suc k)) X i j = cheb_fun V A X (Suc k) i j)"
proof (induction k)
  case 0
  have "fmul V (fmul V A delta) X i j = fmul V A X i j" for i j
  proof -
    have "fmul V (fmul V A delta) X i j = fmul V A (fmul V delta X) i j" by (rule fmul_assoc)
    also have "\<dots> = fmul V A X i j"
    proof (rule fmul_cong)
      show "A i u = A i u" for u by simp
      show "fmul V delta X u j = X u j" if "u < V" for u
        using that by (rule fmul_delta_left)
    qed
    finally show ?thesis .
  qed
  then show ?case by (simp add: fmul_delta_left)
next
  case (Suc k)
  let ?T = "cheb_fun V A delta"
  have "fmul V (?T (Suc (Suc k))) X i j = cheb_fun V A X (Suc (Suc k)) i j" if i: "i < V" for i j
  proof -
    have "fmul V (?T (Suc (Suc k))) X i j
            = 2 * fmul V (fmul V A (?T (Suc k))) X i j - fmul V (?T k) X i j"
      by (simp add: fmul_step_left)
    also have "fmul V (fmul V A (?T (Suc k))) X i j = fmul V A (fmul V (?T (Suc k)) X) i j"
      by (rule fmul_assoc)
    also have "\<dots> = fmul V A (cheb_fun V A X (Suc k)) i j"
    proof (rule fmul_cong)
      show "A i u = A i u" for u by simp
      show "fmul V (?T (Suc k)) X u j = cheb_fun V A X (Suc k) u j" if "u < V" for u
        using Suc that by simp
    qed
    also have "fmul V (?T k) X i j = cheb_fun V A X k i j" using Suc i by simp
    finally show ?thesis by simp
  qed
  then show ?case using Suc by simp
qed

lemma cheb_transposed_apply:
  assumes sym: "\<And>i j. i < V \<Longrightarrow> j < V \<Longrightarrow> A i j = A j i" and w: "w < V"
  shows "(\<Sum>v\<leftarrow>[0..<V]. cheb_fun V A delta k v w * X v j) = cheb_fun V A X k w j"
proof -
  have "(\<Sum>v\<leftarrow>[0..<V]. cheb_fun V A delta k v w * X v j)
          = (\<Sum>v = 0..<V. cheb_fun V A delta k v w * X v j)"
    by (simp add: interv_sum_list_conv_sum_set_nat)
  also have "\<dots> = (\<Sum>v = 0..<V. cheb_fun V A delta k w v * X v j)"
    using cheb_symmetric2 [of V A k, OF sym] w by (intro sum.cong) simp_all
  also have "\<dots> = fmul V (cheb_fun V A delta k) X w j" by (simp add: fmul_sum)
  also have "\<dots> = cheb_fun V A X k w j" using cheb_apply2 [of V A k X] w by simp
  finally show ?thesis .
qed


lemma cheb_seq_tab2:
  assumes "L = Tensor [V, V] (tab V V A)" and "x = Tensor [V, D] (tab V D X)"
  shows "cheb_seq L x k = Tensor [V, D] (tab V D (cheb_fun V A X k))
       \<and> cheb_seq L x (Suc k) = Tensor [V, D] (tab V D (cheb_fun V A X (Suc k)))"
proof (induction k)
  case 0
  then show ?case using assms by (simp add: mm_tab)
next
  case (Suc k)
  then show ?case using assms by (simp add: mm_tab scale_tab sub_tab)
qed

lemma cheb_seq_tab:
  assumes "L = Tensor [V, V] (tab V V A)" and "x = Tensor [V, D] (tab V D X)"
  shows "cheb_seq L x k = Tensor [V, D] (tab V D (cheb_fun V A X k))"
  using cheb_seq_tab2 [OF assms] by blast

lemma eye_tab: "eye V = Tensor [V, V] (tab V V delta)"
  by (simp add: eye_def tab_def)

lemma tensor_tab:
  assumes "shape t = [n, p]" and "wf_tensor t"
  shows "t = Tensor [n, p] (tab n p (\<lambda>i j. data t ! (i * p + j)))"
proof -
  have "length (data t) = n * p" using assms by (simp add: wf_tensor_def)
  then have "data t = tab n p (\<lambda>i j. data t ! (i * p + j))" by (rule tab_of_data)
  then show ?thesis using assms(1) by (simp add: tensor.expand)
qed

lemma mm_eye:
  assumes "shape L = [V, V]" and "wf_tensor L"
  shows "mm L (eye V) = L"
proof -
  let ?A = "\<lambda>i j. data L ! (i * V + j)"
  have L: "L = Tensor [V, V] (tab V V ?A)" using assms by (rule tensor_tab)
  have "mm (Tensor [V, V] (tab V V ?A)) (eye V) = Tensor [V, V] (tab V V (fmul V ?A delta))"
    by (simp only: eye_tab mm_tab)
  also have "tab V V (fmul V ?A delta) = tab V V ?A"
    by (rule tab_cong) (simp add: fmul_delta_right)
  finally show ?thesis using L by simp
qed

lemma take_concat_const:
  assumes "\<And>i. i < K \<Longrightarrow> length (f i) = n" and "j \<le> K"
  shows "take (j * n) (concat (map f [0..<K])) = concat (map f [0..<j])"
    and "drop (j * n) (concat (map f [0..<K])) = concat (map f [j..<K])"
proof -
  have sp: "[0..<K] = [0..<j] @ [j..<K]"
    using assms(2) by (metis le_add_diff_inverse upt_add_eq_append zero_le)
  have len: "length (concat (map f [0..<j])) = j * n"
    using assms by (intro length_concat_const) simp
  show "take (j * n) (concat (map f [0..<K])) = concat (map f [0..<j])"
    by (subst sp) (simp add: len)
  show "drop (j * n) (concat (map f [0..<K])) = concat (map f [j..<K])"
    by (subst sp) (simp add: len)
qed

lemma set_chunk_concat:
  assumes "\<And>i. i < K \<Longrightarrow> length (f i) = n" and "j < K"
  shows "take (j * n) (concat (map f [0..<K])) @ m @ drop (Suc j * n) (concat (map f [0..<K]))
           = concat (map (f(j := m)) [0..<K])"
proof -
  have sp: "[0..<K] = [0..<j] @ j # [Suc j..<K]"
    using assms(2) by (metis le_add_diff_inverse less_imp_le upt_add_eq_append upt_conv_Cons zero_le)
  have a: "map (f(j := m)) [0..<j] = map f [0..<j]" by (intro map_cong) simp_all
  have b: "map (f(j := m)) [Suc j..<K] = map f [Suc j..<K]" by (intro map_cong) simp_all
  have "concat (map (f(j := m)) [0..<K])
          = concat (map f [0..<j]) @ m @ concat (map f [Suc j..<K])"
    by (subst sp) (simp add: a b)
  moreover have "take (j * n) (concat (map f [0..<K])) = concat (map f [0..<j])"
    using assms by (intro take_concat_const(1)) simp_all
  moreover have "drop (Suc j * n) (concat (map f [0..<K])) = concat (map f [Suc j..<K])"
    using assms by (intro take_concat_const(2)) simp_all
  ultimately show ?thesis by simp
qed

lemma zeros_pstack: "zeros [K, V, V] = pstack K V 0 P"
proof -
  have "concat (map (\<lambda>k. replicate n (0::'a)) [0..<K]) = replicate (K * n) 0" for n
  proof (induction K)
    case 0
    then show ?case by simp
  next
    case (Suc K)
    have "replicate (K * n) (0::'a) @ replicate n 0 = replicate (K * n + n) 0"
      by (simp only: replicate_add)
    then show ?case using Suc by (simp add: add.commute)
  qed
  from this [of "V * V"] show ?thesis by (simp add: zeros_def pstack_def)
qed

lemma set0_pstack:
  assumes "\<And>i. length (data (P i)) = V * V" and "j < K" and "data m = data (P j)"
  shows "set0 j m (pstack K V j P) = pstack K V (Suc j) P"
proof -
  let ?g = "\<lambda>k. if k < j then data (P k) else replicate (V * V) 0"
  have len: "length (?g i) = V * V" for i using assms(1) by simp
  have "take (j * (V * V)) (concat (map ?g [0..<K])) @ data m
          @ drop (Suc j * (V * V)) (concat (map ?g [0..<K]))
        = concat (map (?g(j := data m)) [0..<K])"
    using len assms(2) by (intro set_chunk_concat) simp_all
  moreover have "?g(j := data m) = (\<lambda>k. if k < Suc j then data (P k) else replicate (V * V) 0)"
    using assms(3) by (auto simp: fun_eq_iff less_Suc_eq)
  ultimately show ?thesis by (simp add: set0_def pstack_def)
qed

lemma select0_pstack:
  assumes "\<And>i. shape (P i) = [V, V] \<and> length (data (P i)) = V * V" and "i < j" and "j \<le> K"
  shows "select0 (pstack K V j P) i = P i"
proof -
  let ?g = "\<lambda>k. if k < j then data (P k) else replicate (V * V) 0"
  have len: "length (?g k) = V * V" for k using assms(1) by simp
  have "take (V * V) (drop (i * (V * V)) (concat (map ?g [0..<K]))) = ?g i"
    using len assms(2,3) by (intro chunk_concat) simp_all
  then show ?thesis using assms by (simp add: select0_def pstack_def tensor.expand)
qed

lemma pstack_full: "pstack K V K P = stack K V V P"
proof -
  have "map (\<lambda>k. if k < K then data (P k) else replicate (V * V) 0) [0..<K]
          = map (\<lambda>k. data (P k)) [0..<K]"
    by (intro map_cong) simp_all
  then show ?thesis unfolding pstack_def stack_def by (simp only:)
qed

lemma shape_eye: "shape (eye V) = [V, V]"
  by (simp add: eye_tab)

lemma wf_eye: "wf_tensor (eye V)"
  by (simp add: eye_tab wf_tensor_def length_tab)

lemma projector_slices:
  assumes "shape L = [V, V]"
  shows "shape (cheb_seq L (eye V) k) = [V, V] \<and> length (data (cheb_seq L (eye V) k)) = V * V"
  using assms by (intro cheb_seq_shape) (simp_all add: shape_eye wf_eye)

lemma projection_step_pstack:
  assumes L: "shape L = [V, V]" and i: "2 \<le> i" "i < K"
  shows "projection_step L i (pstack K V i (cheb_seq L (eye V)))
           = pstack K V (Suc i) (cheb_seq L (eye V))"
proof -
  let ?P = "cheb_seq L (eye V)"
  define j where "j = i - 2"
  have ij: "i = Suc (Suc j)" using i(1) by (simp add: j_def)
  have sl: "shape (?P k) = [V, V] \<and> length (data (?P k)) = V * V" for k
    using L by (rule projector_slices)
  have s1: "select0 (pstack K V i ?P) (i - 1) = ?P (Suc j)"
    using select0_pstack [of ?P V "Suc j" i K] sl i(2) by (simp add: ij)
  have s2: "select0 (pstack K V i ?P) (i - 2) = ?P j"
    using select0_pstack [of ?P V j i K] sl i(2) by (simp add: ij)
  have "sub (scale 2 (mm L (?P (Suc j)))) (?P j) = ?P i" by (simp add: ij)
  then have m: "sub (scale 2 (mm L (select0 (pstack K V i ?P) (i - 1))))
             (select0 (pstack K V i ?P) (i - 2)) = ?P i"
    by (simp only: s1 s2)
  have "set0 i (?P i) (pstack K V i ?P) = pstack K V (Suc i) ?P"
    using sl i(2) by (intro set0_pstack) simp_all
  then show ?thesis by (simp only: projection_step_def m)
qed

lemma fold_projection:
  assumes L: "shape L = [V, V]"
  shows "2 \<le> j \<Longrightarrow> j + n \<le> K \<Longrightarrow>
         fold (projection_step L) [j..<j + n] (pstack K V j (cheb_seq L (eye V)))
           = pstack K V (j + n) (cheb_seq L (eye V))"
proof (induction n arbitrary: j)
  case 0
  then show ?case by simp
next
  case (Suc n)
  have up: "[j..<j + Suc n] = j # [Suc j..<Suc j + n]" by (simp add: upt_conv_Cons)
  have st: "projection_step L j (pstack K V j (cheb_seq L (eye V)))
           = pstack K V (Suc j) (cheb_seq L (eye V))"
    using L Suc.prems by (intro projection_step_pstack) simp_all
  have "fold (projection_step L) [Suc j..<Suc j + n] (pstack K V (Suc j) (cheb_seq L (eye V)))
           = pstack K V (Suc j + n) (cheb_seq L (eye V))"
    using Suc.prems by (intro Suc.IH) simp_all
  then show ?case by (simp only: up fold_simps st) simp
qed

lemma precompute_projection_stack:
  assumes K: "1 \<le> K" and L: "shape L = [V, V]" and w: "wf_tensor L"
  shows "precompute_projection L K = Inr (stack K V V (cheb_seq L (eye V)))"
proof -
  let ?P = "cheb_seq L (eye V)"
  have sl: "length (data (?P k)) = V * V" for k using projector_slices [OF L] by simp
  have p1: "set0 0 (eye V) (zeros [K, V, V]) = pstack K V 1 ?P"
    using K sl set0_pstack [of ?P V 0 K "eye V"] by (simp add: zeros_pstack [of K V ?P])
  show ?thesis
  proof (cases "K > 1")
    case False
    then have "K = 1" using K by simp
    then show ?thesis
      using L p1 pstack_full [of 1 V ?P] by (simp add: precompute_projection_def)
  next
    case True
    have "data L = data (?P 1)" using mm_eye [OF L w] by simp
    then have p2: "set0 1 L (pstack K V 1 ?P) = pstack K V 2 ?P"
      using True sl set0_pstack [of ?P V 1 K L] by (simp add: numeral_2_eq_2)
    define n where "n = K - 2"
    have n: "2 + n = K" using True by (simp add: n_def)
    have "fold (projection_step L) [2..<2 + n] (pstack K V 2 ?P) = pstack K V (2 + n) ?P"
      using L n by (intro fold_projection) simp_all
    then have "fold (projection_step L) [2..<K] (pstack K V 2 ?P) = pstack K V K ?P"
      by (simp only: n)
    then show ?thesis
      using True L p1 p2 by (simp add: precompute_projection_def pstack_full)
  qed
qed

lemma map_upt_nested:
  "map F [0..<a * b] = concat (map (\<lambda>c. map (\<lambda>r. F (c * b + r)) [0..<b]) [0..<a])"
proof -
  have "map F xs = concat (map (\<lambda>x. [F x]) xs)" for xs by (induction xs) simp_all
  then have "map F [0..<a * b] = concat (map (\<lambda>x. [F x]) [0..<a * b])" by simp
  also have "\<dots> = concat (map (\<lambda>c. concat (map (\<lambda>r. [F (c * b + r)]) [0..<b])) [0..<a])"
    by (rule concat_nested_range)
  also have "\<dots> = concat (map (\<lambda>c. map (\<lambda>r. F (c * b + r)) [0..<b]) [0..<a])"
  proof -
    have "concat (map (\<lambda>r. [G r]) xs) = map G xs" for G and xs :: "nat list"
      by (induction xs) simp_all
    then show ?thesis by simp
  qed
  finally show ?thesis .
qed

lemma map_upt_tab: "map G [0..<n * p] = tab n p (\<lambda>i j. G (i * p + j))"
  unfolding tab_def by (rule map_upt_nested)

lemma tab3_cong:
  assumes "\<And>k w v. k < K \<Longrightarrow> w < n \<Longrightarrow> v < p \<Longrightarrow> f k w v = g k w v"
  shows "concat (map (\<lambda>k. tab n p (f k)) [0..<K]) = concat (map (\<lambda>k. tab n p (g k)) [0..<K])"
proof -
  have "map (\<lambda>k. tab n p (f k)) [0..<K] = map (\<lambda>k. tab n p (g k)) [0..<K]"
  proof (rule map_cong [OF refl])
    fix k assume "k \<in> set [0..<K]"
    then have k: "k < K" by simp
    show "tab n p (f k) = tab n p (g k)" using assms [OF k] by (rule tab_cong)
  qed
  then show ?thesis by (rule arg_cong)
qed

lemma nth_tab3:
  assumes "k < K" "w < n" "v < p"
  shows "concat (map (\<lambda>k. tab n p (f k)) [0..<K]) ! (k * (n * p) + (w * p + v)) = f k w v"
proof -
  have wv: "w * p + v < n * p"
  proof -
    have "w * p + v < Suc w * p" using assms(3) by simp
    also have "\<dots> \<le> n * p" using assms(2) by (intro mult_le_mono1) simp
    finally show ?thesis .
  qed
  have "concat (map (\<lambda>k. tab n p (f k)) [0..<K]) ! (k * (n * p) + (w * p + v))
          = tab n p (f k) ! (w * p + v)"
    using assms(1) wv by (intro nth_concat_const) (simp_all add: length_tab)
  then show ?thesis using assms by (simp add: nth_tab)
qed

lemma permute_021:
  "permute [0, 2, 1] (Tensor [K, V, V] D)
     = Tensor [K, V, V]
         (concat (map (\<lambda>k. tab V V (\<lambda>w v. D ! (k * (V * V) + (v * V + w)))) [0..<K]))"
proof -
  let ?F = "\<lambda>i. let m = unravel [K, V, V] i;
                     old = map (\<lambda>b. m ! index_of [0, 2, 1] b) [0..<length [K, V, V]]
                 in D ! ravel [K, V, V] old"
  have three: "[0..<3] = [0, 1, 2]" by (simp add: upt_rec)
  have pt: "?F (k * (V * V) + (w * V + v)) = D ! (k * (V * V) + (v * V + w))"
    if "k < K" "w < V" "v < V" for k w v
  proof -
    have "list_all2 (\<lambda>m d. m < d) [k, w, v] [K, V, V]" using that by simp
    then have "unravel [K, V, V] (ravel [K, V, V] [k, w, v]) = [k, w, v]"
      by (rule unravel_ravel)
    moreover have "ravel [K, V, V] [k, w, v] = k * (V * V) + (w * V + v)" by simp
    ultimately have "unravel [K, V, V] (k * (V * V) + (w * V + v)) = [k, w, v]" by simp
    then show ?thesis by (simp add: Let_def three)
  qed
  have "map ?F [0..<K * (V * V)]
          = concat (map (\<lambda>k. map (\<lambda>r. ?F (k * (V * V) + r)) [0..<V * V]) [0..<K])"
    by (rule map_upt_nested)
  also have "\<dots> = concat (map (\<lambda>k. tab V V (\<lambda>w v. ?F (k * (V * V) + (w * V + v)))) [0..<K])"
    by (simp only: map_upt_tab)
  also have "\<dots> = concat (map (\<lambda>k. tab V V (\<lambda>w v. D ! (k * (V * V) + (v * V + w)))) [0..<K])"
    using pt by (rule tab3_cong)
  finally have "map ?F [0..<K * (V * V)]
      = concat (map (\<lambda>k. tab V V (\<lambda>w v. D ! (k * (V * V) + (v * V + w)))) [0..<K])" .
  then show ?thesis by (simp add: permute_def Let_def)
qed

lemma tab_split:
  "tab (K * V) D g = concat (map (\<lambda>k. tab V D (\<lambda>w. g (k * V + w))) [0..<K])"
  unfolding tab_def by (rule concat_nested_range)

lemma symmetric_matrix_entries:
  assumes "symmetric_matrix L" and "shape L = [V, V]" and "i < V" and "j < V"
  shows "data L ! (i * V + j) = data L ! (j * V + i)"
  using assms by (simp add: symmetric_matrix_def list_all_iff)

lemma precompute_runtime_parity_aux:
  assumes K: "1 \<le> K"
    and L: "shape L = [V, V]" and wL: "wf_tensor L" and sym: "symmetric_matrix L"
    and x: "shape x0 = [V, D]" and wx: "wf_tensor x0"
  shows "precomputed_basis L x0 K = Inr (project_cheb_basis L x0 K)"
proof -
  let ?A = "\<lambda>i j. data L ! (i * V + j)"
  let ?X = "\<lambda>i j. data x0 ! (i * D + j)"
  let ?T = "cheb_fun V ?A delta"
  let ?B = "cheb_fun V ?A ?X"
  have Lt: "L = Tensor [V, V] (tab V V ?A)" using L wL by (rule tensor_tab)
  have xt: "x0 = Tensor [V, D] (tab V D ?X)" using x wx by (rule tensor_tab)
  have symA: "?A i j = ?A j i" if "i < V" "j < V" for i j
    using sym L that by (rule symmetric_matrix_entries)
  have P: "cheb_seq L (eye V) k = Tensor [V, V] (tab V V (?T k))" for k
    using Lt eye_tab by (rule cheb_seq_tab)
  have B: "cheb_seq L x0 k = Tensor [V, D] (tab V D (?B k))" for k
    using Lt xt by (rule cheb_seq_tab)
  have pp: "precompute_projection L K
              = Inr (Tensor [K, V, V] (concat (map (\<lambda>k. tab V V (?T k)) [0..<K])))"
    using precompute_projection_stack [OF K L wL] by (simp add: stack_def P)
  let ?D3 = "concat (map (\<lambda>k. tab V V (?T k)) [0..<K])"
  let ?A3 = "concat (map (\<lambda>k. tab V V (\<lambda>w v. ?T k v w)) [0..<K])"
  have "concat (map (\<lambda>k. tab V V (\<lambda>w v. ?D3 ! (k * (V * V) + (v * V + w)))) [0..<K]) = ?A3"
    by (rule tab3_cong) (simp add: nth_tab3)
  then have pm: "permute [0, 2, 1] (Tensor [K, V, V] ?D3) = Tensor [K, V, V] ?A3"
    by (simp only: permute_021)
  have fp: "flat_projector L K (Tensor [K, V, V] ?D3) = Tensor [K * V, V] ?A3"
    unfolding flat_projector_def pm using L by (simp add: reshape_def)
  let ?g = "\<lambda>r j. \<Sum>v\<leftarrow>[0..<V]. ?A3 ! (r * V + v) * data x0 ! (v * D + j)"
  have mmd: "data (mm (Tensor [K * V, V] ?A3) x0) = tab (K * V) D ?g"
    using x by (simp add: mm_def tab_def Let_def)
  have g: "?g (k * V + w) j = ?B k w j" if "k < K" "w < V" "j < D" for k w j
  proof -
    have "?g (k * V + w) j = (\<Sum>v\<leftarrow>[0..<V]. ?T k v w * ?X v j)"
    proof (rule arg_cong [where f = sum_list], rule map_cong [OF refl])
      fix v assume "v \<in> set [0..<V]"
      then have v: "v < V" by simp
      have e: "(k * V + w) * V + v = k * (V * V) + (w * V + v)" by (simp add: algebra_simps)
      have "?A3 ! (k * (V * V) + (w * V + v)) = ?T k v w"
        using that(1,2) v by (rule nth_tab3)
      then have "?A3 ! ((k * V + w) * V + v) = ?T k v w"
        by (simp only: e)
      then show "?A3 ! ((k * V + w) * V + v) * data x0 ! (v * D + j) = ?T k v w * ?X v j"
        by simp
    qed
    also have "\<dots> = ?B k w j" using symA that(2) by (rule cheb_transposed_apply)
    finally show ?thesis .
  qed
  have "tab (K * V) D ?g = concat (map (\<lambda>k. tab V D (\<lambda>w. ?g (k * V + w))) [0..<K])"
    by (rule tab_split)
  also have "\<dots> = concat (map (\<lambda>k. tab V D (?B k)) [0..<K])"
    using g by (rule tab3_cong)
  finally have dat: "data (mm (Tensor [K * V, V] ?A3) x0)
                       = concat (map (\<lambda>k. tab V D (?B k)) [0..<K])"
    using mmd by simp
  have pre: "precomputed_basis L x0 K
               = Inr (Tensor [K, V, D] (concat (map (\<lambda>k. tab V D (?B k)) [0..<K])))"
    using x by (simp add: precomputed_basis_def pp fp reshape_def dat)
  have run: "project_cheb_basis L x0 K
               = Tensor [K, V, D] (concat (map (\<lambda>k. tab V D (?B k)) [0..<K]))"
    using project_cheb_basis_dense_stack [OF K x, of L]
    by (simp add: project_cheb_basis_dense_eq stack_def B)
  show ?thesis by (simp only: pre run)
qed

lemma vertex_matrix_shape:
  assumes "shape inputs = [B, Fin, V, X, Y, Z]"
  shows "shape (vertex_matrix Fin inputs) = [V, Fin * B * X * Y * Z]"
    and "wf_tensor (vertex_matrix Fin inputs)"
  using assms by (simp_all add: vertex_matrix_def reshape_def permute_def wf_tensor_def Let_def)

text \<open>
  The Laplacians of the sampling hierarchy are symmetric. \<open>Conv.__init__\<close> transposes
  every block of the projector before flattening it (\<open>permute(0, 2, 1)\<close>), so the single
  matrix product applies the transposed Chebyshev polynomials; on a matrix that is not
  symmetric, which is not a Laplacian, they differ from the recurrence at order 1.
\<close>

lemma transposed_projector_example:
  "precomputed_basis (Tensor [2, 2] [0, 1, 0, 0 :: int]) (Tensor [2, 1] [0, 1]) 2
     = Inr (Tensor [2, 2, 1] [0, 1, 0, 0])
   \<and> project_cheb_basis (Tensor [2, 2] [0, 1, 0, 0 :: int]) (Tensor [2, 1] [0, 1]) 2
     = Tensor [2, 2, 1] [0, 1, 1, 0]"
  by code_simp

text \<open>
  The parity at the level of the convolutions. In \<open>cheb_conv_dense\<close> the two paths return
  the same tensor. In \<open>cheb_conv\<close> the path of the precomputed projector returns it when
  the runtime accepts the view of the permuted projection, and raises otherwise.
\<close>

lemma projection_parity:
  assumes K: "1 \<le> K"
    and L: "shape L = [V, V]" and wL: "wf_tensor L" and sym: "symmetric_matrix L"
    and i: "shape inputs = [B, Fin, V, X, Y, Z]"
    and P: "precompute_projection L K = Inr P"
  shows "reshape s (mm (flat_projector L K P) (vertex_matrix Fin inputs))
           = reshape s (project_cheb_basis L (vertex_matrix Fin inputs) K)"
proof -
  let ?x0 = "vertex_matrix Fin inputs"
  have "precomputed_basis L ?x0 K = Inr (project_cheb_basis L ?x0 K)"
    using K L wL sym vertex_matrix_shape [OF i] by (rule precompute_runtime_parity_aux)
  then have "reshape [K, V, Fin * B * X * Y * Z] (mm (flat_projector L K P) ?x0)
               = project_cheb_basis L ?x0 K"
    using P vertex_matrix_shape(1) [OF i] by (simp add: precomputed_basis_def)
  then have "data (mm (flat_projector L K P) ?x0) = data (project_cheb_basis L ?x0 K)"
    by (metis reshape_def tensor.sel(2))
  then show ?thesis by (simp add: reshape_def)
qed

lemma cheb_conv_dense_parity:
  assumes K: "1 \<le> K"
    and L: "shape L = [V, V]" and wL: "wf_tensor L" and sym: "symmetric_matrix L"
    and i: "shape inputs = [B, Fin, V, X, Y, Z]" and w: "shape weight = [K, Fin, Fout]"
    and P: "precompute_projection L K = Inr P"
  shows "cheb_conv_dense (flat_projector L K P) inputs weight True False
           = cheb_conv_dense L inputs weight False False"
  using i w projection_parity [OF K L wL sym i P]
  by (simp add: cheb_conv_dense_def Let_def project_cheb_basis_dense_eq [symmetric])

lemma cheb_conv_parity:
  assumes K: "1 \<le> K"
    and L: "shape L = [V, V]" and wL: "wf_tensor L" and sym: "symmetric_matrix L"
    and i: "shape inputs = [B, Fin, V, X, Y, Z]" and w: "shape weight = [K, Fin, Fout]"
    and P: "precompute_projection L K = Inr P"
  shows "cheb_conv viewable (flat_projector L K P) inputs weight True False
           = (if viewable [B, V, X, Y, Z, K, Fin]
                   (permuted_strides [K, V, Fin, B, X, Y, Z] [3, 1, 4, 5, 6, 0, 2])
                   [B * V * X * Y * Z, K * Fin]
              then cheb_conv viewable L inputs weight False False
              else Inl RuntimeError)"
  using i w projection_parity [OF K L wL sym i P]
  by (simp add: cheb_conv_def view_permuted_def Let_def permute_def reshape_def)

text \<open>
  C2. For every Laplacian \<open>L\<close>, a symmetric matrix of shape \<open>[V, V]\<close>, every signal
  \<open>x0\<close> of shape \<open>[V, D]\<close> and every order \<open>K \<ge> 1\<close>, the precomputed projector is
  built without error, and its product with \<open>x0\<close>, viewed as \<open>K\<close> blocks, is the basis
  that the runtime recurrence returns.
\<close>

theorem precompute_runtime_parity:
  assumes "1 \<le> K"
    and "shape L = [V, V]" and "wf_tensor L" and "symmetric_matrix L"
    and "shape x0 = [V, D]" and "wf_tensor x0"
  shows "precomputed_basis L x0 K = Inr (project_cheb_basis L x0 K)"
  using assms by (rule precompute_runtime_parity_aux)

theorem precompute_runtime_parity_witness:
  "precomputed_basis (Tensor [2, 2] [1, 2, 2, 3 :: int]) (Tensor [2, 1] [1, -1]) 3
     = Inr (project_cheb_basis (Tensor [2, 2] [1, 2, 2, 3]) (Tensor [2, 1] [1, -1]) 3)
   \<and> project_cheb_basis (Tensor [2, 2] [1, 2, 2, 3 :: int]) (Tensor [2, 1] [1, -1]) 3
     = Tensor [3, 2, 1] [1, -1, -1, -1, -7, -9]"
proof -
  have s: "symmetric_matrix (Tensor [2, 2] [1, 2, 2, 3 :: int])" by code_simp
  have a: "precomputed_basis (Tensor [2, 2] [1, 2, 2, 3 :: int]) (Tensor [2, 1] [1, -1]) 3
     = Inr (project_cheb_basis (Tensor [2, 2] [1, 2, 2, 3]) (Tensor [2, 1] [1, -1]) 3)"
    using precompute_runtime_parity [of 3 "Tensor [2, 2] [1, 2, 2, 3 :: int]" 2
            "Tensor [2, 1] [1, -1]" 1] s
    by (simp add: wf_tensor_def)
  have b: "project_cheb_basis (Tensor [2, 2] [1, 2, 2, 3 :: int]) (Tensor [2, 1] [1, -1]) 3
     = Tensor [3, 2, 1] [1, -1, -1, -1, -7, -9]"
    by code_simp
  show ?thesis by (rule conjI [OF a b])
qed

end
